theory Spec2Isabelle
  imports Complex_Main "HOL-Library.Word" "HOL-Library.Log_Nat"
begin

unbundle bit_operations_syntax

section \<open>JavaScript values used by OsuParser.ts\<close>

text \<open>
  A JavaScript number is an IEEE 754 double: NaN, an infinity or a finite value. A
  finite value is kept as the rational it denotes; every operation that can produce a
  value that is no double rounds its exact result with \<open>round_double\<close>. The sign of
  zero is not kept (\<open>-0\<close> is \<open>Num 0\<close>): the program never divides by a zero and never
  tells the two zeros apart.
\<close>

datatype jsnum = NaN | Num rat | PosInfinity | NegInfinity

text \<open>The nearest integer, a tie going to the even one.\<close>

definition round_half_even :: "rat \<Rightarrow> int" where
  "round_half_even t =
     (let f = \<lfloor>t\<rfloor>; d = t - of_int f
      in if d < 1 / 2 then f else if 1 / 2 < d then f + 1 else if even f then f else f + 1)"

text \<open>
  The binary exponent of a positive rational: \<open>2 powi binade q \<le> q < 2 powi (binade q + 1)\<close>
  (lemma \<open>binade_bounds\<close>). The bit lengths of numerator and denominator give it up to
  one.
\<close>

definition binade :: "rat \<Rightarrow> int" where
  "binade q =
     (let d = bitlen (fst (quotient_of q)) - bitlen (snd (quotient_of q))
      in if 2 powi d \<le> q then d else d - 1)"

text \<open>
  The distance between neighbouring doubles around \<open>q\<close>: 52 binary places below the
  exponent of \<open>q\<close>, and \<open>2 powi - 1074\<close> for the subnormal numbers.
\<close>

definition ulp_of :: "rat \<Rightarrow> rat" where
  "ulp_of q = 2 powi (max (binade \<bar>q\<bar>) (- 1022) - 52)"

text \<open>
  Rounding to the nearest double, ties to even: the nearest multiple of \<open>ulp_of q\<close>,
  and an infinity when that has the binary exponent 1024 or more, that is, when it is
  \<open>2 powi 1024\<close> or more in magnitude (lemma \<open>overflow_iff\<close>).
\<close>

definition round_double :: "rat \<Rightarrow> jsnum" where
  "round_double q =
     (if q = 0 then Num 0
      else (let v = of_int (round_half_even (q / ulp_of q)) * ulp_of q
            in if v \<noteq> 0 \<and> 1024 \<le> binade \<bar>v\<bar>
               then (if q < 0 then NegInfinity else PosInfinity)
               else Num v))"

fun js_neg :: "jsnum \<Rightarrow> jsnum" where
  "js_neg NaN = NaN"
| "js_neg (Num a) = Num (- a)"
| "js_neg PosInfinity = NegInfinity"
| "js_neg NegInfinity = PosInfinity"

fun js_add :: "jsnum \<Rightarrow> jsnum \<Rightarrow> jsnum" where
  "js_add NaN _ = NaN"
| "js_add _ NaN = NaN"
| "js_add (Num a) (Num b) = round_double (a + b)"
| "js_add (Num a) PosInfinity = PosInfinity"
| "js_add (Num a) NegInfinity = NegInfinity"
| "js_add PosInfinity (Num b) = PosInfinity"
| "js_add NegInfinity (Num b) = NegInfinity"
| "js_add PosInfinity PosInfinity = PosInfinity"
| "js_add NegInfinity NegInfinity = NegInfinity"
| "js_add PosInfinity NegInfinity = NaN"
| "js_add NegInfinity PosInfinity = NaN"

definition js_sub :: "jsnum \<Rightarrow> jsnum \<Rightarrow> jsnum" where
  "js_sub a b = js_add a (js_neg b)"

text \<open>The sign of a number: \<open>None\<close> for NaN, otherwise \<open>-1\<close>, \<open>0\<close> or \<open>1\<close>.\<close>

fun js_sign :: "jsnum \<Rightarrow> int option" where
  "js_sign NaN = None"
| "js_sign (Num a) = Some (if a < 0 then - 1 else if a = 0 then 0 else 1)"
| "js_sign PosInfinity = Some 1"
| "js_sign NegInfinity = Some (- 1)"

definition signed_infinity :: "int \<Rightarrow> jsnum" where
  "signed_infinity s = (if s = 0 then NaN else if s < 0 then NegInfinity else PosInfinity)"

fun js_mul :: "jsnum \<Rightarrow> jsnum \<Rightarrow> jsnum" where
  "js_mul (Num a) (Num b) = round_double (a * b)"
| "js_mul a b =
     (case (js_sign a, js_sign b) of
        (Some s, Some t) \<Rightarrow> signed_infinity (s * t)
      | _ \<Rightarrow> NaN)"

text \<open>
  Division. A finite dividend over zero is an infinity of the dividend's sign (the
  divisor's zero is taken as \<open>+0\<close>); the only division of the program has a divisor
  that is strictly positive.
\<close>

fun js_div :: "jsnum \<Rightarrow> jsnum \<Rightarrow> jsnum" where
  "js_div NaN _ = NaN"
| "js_div _ NaN = NaN"
| "js_div (Num a) (Num b) =
     (if b = 0 then signed_infinity (if a < 0 then - 1 else if a = 0 then 0 else 1)
      else round_double (a / b))"
| "js_div (Num a) PosInfinity = Num 0"
| "js_div (Num a) NegInfinity = Num 0"
| "js_div PosInfinity (Num b) = (if b < 0 then NegInfinity else PosInfinity)"
| "js_div NegInfinity (Num b) = (if b < 0 then PosInfinity else NegInfinity)"
| "js_div PosInfinity PosInfinity = NaN"
| "js_div PosInfinity NegInfinity = NaN"
| "js_div NegInfinity PosInfinity = NaN"
| "js_div NegInfinity NegInfinity = NaN"

text \<open>The relational operators: every comparison with NaN is false.\<close>

fun js_lt :: "jsnum \<Rightarrow> jsnum \<Rightarrow> bool" where
  "js_lt NaN _ = False"
| "js_lt _ NaN = False"
| "js_lt (Num a) (Num b) = (a < b)"
| "js_lt (Num a) PosInfinity = True"
| "js_lt (Num a) NegInfinity = False"
| "js_lt PosInfinity _ = False"
| "js_lt NegInfinity (Num b) = True"
| "js_lt NegInfinity PosInfinity = True"
| "js_lt NegInfinity NegInfinity = False"

definition js_gt :: "jsnum \<Rightarrow> jsnum \<Rightarrow> bool" where
  "js_gt a b = js_lt b a"

definition js_le :: "jsnum \<Rightarrow> jsnum \<Rightarrow> bool" where
  "js_le a b = (a \<noteq> NaN \<and> b \<noteq> NaN \<and> \<not> js_lt b a)"

fun Math_abs :: "jsnum \<Rightarrow> jsnum" where
  "Math_abs NaN = NaN"
| "Math_abs (Num a) = Num \<bar>a\<bar>"
| "Math_abs PosInfinity = PosInfinity"
| "Math_abs NegInfinity = PosInfinity"

definition Math_max :: "jsnum \<Rightarrow> jsnum \<Rightarrow> jsnum" where
  "Math_max a b = (if a = NaN \<or> b = NaN then NaN else if js_lt a b then b else a)"

text \<open>
  \<open>ToInt32\<close>, applied by the bitwise operators: NaN and the infinities are 0, a
  finite value is truncated towards zero and reduced modulo \<open>2^32\<close>.
\<close>

definition truncate_rat :: "rat \<Rightarrow> int" where
  "truncate_rat a = (if a < 0 then - \<lfloor>- a\<rfloor> else \<lfloor>a\<rfloor>)"

fun ToInt32 :: "jsnum \<Rightarrow> 32 word" where
  "ToInt32 (Num a) = word_of_int (truncate_rat a)"
| "ToInt32 _ = 0"

definition of_int32 :: "32 word \<Rightarrow> jsnum" where
  "of_int32 w = Num (of_int (sint w))"

text \<open>
  The values that can be stored under a key of \<open>general\<close> or read out of the
  \<open>LegacySampleBank\<close> enum object: \<open>undefined\<close>, a number, a string, or a member
  inherited from \<open>Object.prototype\<close> (kept by its name only).
\<close>

datatype jsvalue = JUndefined | JNumber jsnum | JString string | JInherited string

subsection \<open>Strings\<close>

text \<open>
  Strings are lists of characters; a \<open>char\<close> stands for a UTF-16 code unit below 256.
  \<open>split_js\<close> is \<open>String.prototype.split\<close> with a one-character separator: the
  result always has at least one element.
\<close>

fun split_js :: "char \<Rightarrow> string \<Rightarrow> string list" where
  "split_js sep [] = [[]]"
| "split_js sep (c # cs) =
     (if c = sep then [] # split_js sep cs
      else (case split_js sep cs of
              w # ws \<Rightarrow> (c # w) # ws
            | [] \<Rightarrow> [[c]]))"

definition is_whitespace :: "char \<Rightarrow> bool" where
  "is_whitespace c = (of_char c \<in> {9, 10, 11, 12, 13, 32, 160 :: nat})"

definition trim :: "string \<Rightarrow> string" where
  "trim s = rev (dropWhile is_whitespace (rev (dropWhile is_whitespace s)))"

definition split_trim :: "char \<Rightarrow> string \<Rightarrow> string list" where
  "split_trim sep line = map trim (split_js sep line)"

text \<open>\<open>xs[i]\<close> on an array: \<open>undefined\<close> (here \<open>None\<close>) out of range.\<close>

definition elem_at :: "'a list \<Rightarrow> nat \<Rightarrow> 'a option" where
  "elem_at xs i = (if i < length xs then Some (xs ! i) else None)"

text \<open>\<open>s[0] === c\<close> on a string.\<close>

definition first_char_is :: "string \<Rightarrow> char \<Rightarrow> bool" where
  "first_char_is s c = (case s of [] \<Rightarrow> False | d # _ \<Rightarrow> d = c)"

definition lower_char :: "char \<Rightarrow> char" where
  "lower_char c =
     (let n = of_char c :: nat in if 65 \<le> n \<and> n \<le> 90 then char_of (n + 32) else c)"

text \<open>\<open>toLowerCase\<close>, on the ASCII letters (the program lowers enum names only).\<close>

definition toLowerCase :: "string \<Rightarrow> string" where
  "toLowerCase s = map lower_char s"

subsection \<open>Number(string)\<close>

definition is_digit :: "char \<Rightarrow> bool" where
  "is_digit c = (48 \<le> (of_char c :: nat) \<and> (of_char c :: nat) \<le> 57)"

definition digit_val :: "char \<Rightarrow> int" where
  "digit_val c = of_char c - 48"

definition digits_val :: "string \<Rightarrow> int" where
  "digits_val ds = foldl (\<lambda>a c. 10 * a + digit_val c) 0 ds"

text \<open>A digit of a literal in base 2, 8 or 16.\<close>

definition radix_digit :: "int \<Rightarrow> char \<Rightarrow> int option" where
  "radix_digit radix c =
     (let n = of_char c :: int;
          v = (if 48 \<le> n \<and> n \<le> 57 then Some (n - 48)
               else if 97 \<le> n \<and> n \<le> 102 then Some (n - 87)
               else if 65 \<le> n \<and> n \<le> 70 then Some (n - 55)
               else None)
      in case v of Some d \<Rightarrow> (if d < radix then Some d else None) | None \<Rightarrow> None)"

fun radix_val :: "int \<Rightarrow> int \<Rightarrow> string \<Rightarrow> int option" where
  "radix_val radix acc [] = Some acc"
| "radix_val radix acc (c # cs) =
     (case radix_digit radix c of
        None \<Rightarrow> None
      | Some d \<Rightarrow> radix_val radix (radix * acc + d) cs)"

text \<open>\<open>0x\<close>, \<open>0o\<close> and \<open>0b\<close> literals: a prefix and at least one digit, no sign.\<close>

definition NonDecimalIntegerLiteral :: "string \<Rightarrow> int option" where
  "NonDecimalIntegerLiteral s =
     (case s of
        z # p # d # ds \<Rightarrow>
          (if z \<noteq> CHR ''0'' then None
           else if p = CHR ''x'' \<or> p = CHR ''X'' then radix_val 16 0 (d # ds)
           else if p = CHR ''o'' \<or> p = CHR ''O'' then radix_val 8 0 (d # ds)
           else if p = CHR ''b'' \<or> p = CHR ''B'' then radix_val 2 0 (d # ds)
           else None)
      | _ \<Rightarrow> None)"

text \<open>The optional exponent part; \<open>None\<close> when what follows the mantissa is not one.\<close>

definition unsigned_digits :: "string \<Rightarrow> int option" where
  "unsigned_digits s = (if s \<noteq> [] \<and> list_all is_digit s then Some (digits_val s) else None)"

definition ExponentPart_opt :: "string \<Rightarrow> int option" where
  "ExponentPart_opt s =
     (case s of
        [] \<Rightarrow> Some 0
      | c # r \<Rightarrow>
          (if c = CHR ''e'' \<or> c = CHR ''E'' then
             (case r of
                [] \<Rightarrow> None
              | d # r' \<Rightarrow>
                  (if d = CHR ''+'' then unsigned_digits r'
                   else if d = CHR ''-'' then map_option uminus (unsigned_digits r')
                   else unsigned_digits r))
           else None))"

text \<open>The mathematical value \<open>m * 10 ^ e\<close> of a decimal literal.\<close>

definition scale10 :: "int \<Rightarrow> int \<Rightarrow> rat" where
  "scale10 m e = of_int m * 10 powi e"

text \<open>
  An unsigned decimal literal: \<open>Infinity\<close>, or digits with an optional fraction and
  exponent. Its value is the double nearest to its mathematical value.
\<close>

definition StrUnsignedDecimalLiteral :: "string \<Rightarrow> jsnum" where
  "StrUnsignedDecimalLiteral s =
     (if s = ''Infinity'' then PosInfinity
      else
        (let ip = takeWhile is_digit s; r1 = dropWhile is_digit s in
         case r1 of
           c # r \<Rightarrow>
             (if c = CHR ''.'' then
                (let fp = takeWhile is_digit r; r2 = dropWhile is_digit r in
                 if ip = [] \<and> fp = [] then NaN
                 else (case ExponentPart_opt r2 of
                         None \<Rightarrow> NaN
                       | Some e \<Rightarrow>
                           round_double (scale10 (digits_val (ip @ fp)) (e - int (length fp)))))
              else if ip = [] then NaN
              else (case ExponentPart_opt r1 of
                      None \<Rightarrow> NaN
                    | Some e \<Rightarrow> round_double (scale10 (digits_val ip) e)))
         | [] \<Rightarrow> (if ip = [] then NaN else round_double (of_int (digits_val ip)))))"

text \<open>
  \<open>Number(s)\<close> on a string: white space is trimmed, the empty string is 0, a
  string that is no numeric literal is NaN.
\<close>

definition Number :: "string \<Rightarrow> jsnum" where
  "Number str =
     (case trim str of
        [] \<Rightarrow> Num 0
      | c # r \<Rightarrow>
          (if c = CHR ''+'' then StrUnsignedDecimalLiteral r
           else if c = CHR ''-'' then js_neg (StrUnsignedDecimalLiteral r)
           else (case NonDecimalIntegerLiteral (c # r) of
                   Some n \<Rightarrow> round_double (of_int n)
                 | None \<Rightarrow> StrUnsignedDecimalLiteral (c # r))))"

text \<open>\<open>Number(x)\<close> where \<open>x\<close> is an array element that may be \<open>undefined\<close>.\<close>

definition Number_opt :: "string option \<Rightarrow> jsnum" where
  "Number_opt x = (case x of None \<Rightarrow> NaN | Some s \<Rightarrow> Number s)"

section \<open>The data model of OsuParser.ts\<close>

datatype error = TypeError | RepeatCountTooHigh

datatype PathType = Catmull | Bezier | Linear | PerfectCurve

record IVector2D =
  vec_x :: jsnum
  vec_y :: jsnum

text \<open>An optional property is an \<open>option\<close>; a property holding \<open>undefined\<close> is \<open>None\<close> too.\<close>

record ISampleBankInfo =
  Filename :: "string option"
  Normal :: "string option"
  Add :: "string option"
  Volume :: "jsnum option"
  CustomSampleBank :: "jsnum option"

record ISampleInfo =
  Filename_s :: "string option"
  Bank :: "string option"
  Name :: "string option"
  Volume_s :: "jsnum option"
  CustomSampleBank_s :: "jsnum option"

record ITimingPoint =
  Time :: jsnum
  BeatLength :: "jsnum option"
  TimeSignature :: "jsnum option"
  SpeedMultiplier :: jsnum
  KiaiMode :: bool
  OmitFirstBarLine :: bool
  SampleBank :: string
  SampleVolume :: jsnum
  CustomSampleBank_t :: jsnum

record IHitObject =
  Combo :: "bool option"
  ComboOffset :: "jsnum option"
  Points :: "IVector2D list option"
  Length :: "jsnum option"
  PathType :: "PathType option"
  RepeatCount :: "jsnum option"
  NodeSamples :: "ISampleInfo list list option"
  Samples :: "ISampleInfo list option"
  StartTime :: "jsnum option"
  Pos_h :: "IVector2D option"

record OsuParser =
  currentSection :: string
  general :: "string \<rightharpoonup> jsvalue"
  difficulty :: "string \<rightharpoonup> jsnum"
  timingPoints :: "ITimingPoint list"
  hitObjects :: "IHitObject list"

text \<open>The object literals \<open>{}\<close> of the source.\<close>

definition empty_bankInfo :: ISampleBankInfo where
  "empty_bankInfo =
     \<lparr>Filename = None, Normal = None, Add = None, Volume = None, CustomSampleBank = None\<rparr>"

definition empty_result :: IHitObject where
  "empty_result =
     \<lparr>Combo = None, ComboOffset = None, Points = None, Length = None, PathType = None,
      RepeatCount = None, NodeSamples = None, Samples = None, StartTime = None, Pos_h = None\<rparr>"

text \<open>The constructor of the class.\<close>

definition new_OsuParser :: OsuParser where
  "new_OsuParser =
     \<lparr>currentSection = [],
      general =
        [''AudioFilename'' \<mapsto> JString [], ''AudioLeadIn'' \<mapsto> JNumber (Num 0),
         ''Countdown'' \<mapsto> JNumber (Num 0), ''LetterboxInBreaks'' \<mapsto> JNumber (Num 0),
         ''Mode'' \<mapsto> JNumber (Num 0), ''PreviewTime'' \<mapsto> JNumber (Num 0),
         ''SampleSet'' \<mapsto> JNumber (Num 0), ''StackLeniency'' \<mapsto> JNumber (Num 0),
         ''WidescreenStoryboard'' \<mapsto> JNumber (Num 0)],
      difficulty =
        [''ApproachRate'' \<mapsto> Num 0, ''CircleSize'' \<mapsto> Num 0,
         ''HPDrainRate'' \<mapsto> Num 0, ''OverallDifficulty'' \<mapsto> Num 0],
      timingPoints = [],
      hitObjects = []\<rparr>"

subsection \<open>The enum object LegacySampleBank\<close>

text \<open>
  A numeric enum is an object with the names as keys of the numbers and the numbers (as
  strings) as keys of the names; like every object literal it inherits the members of
  \<open>Object.prototype\<close>.
\<close>

definition Object_prototype_names :: "string list" where
  "Object_prototype_names =
     [''constructor'', ''__defineGetter__'', ''__defineSetter__'', ''hasOwnProperty'',
      ''__lookupGetter__'', ''__lookupSetter__'', ''isPrototypeOf'', ''propertyIsEnumerable'',
      ''toString'', ''valueOf'', ''__proto__'', ''toLocaleString'']"

definition LegacySampleBank_string :: "string \<Rightarrow> jsvalue" where
  "LegacySampleBank_string k =
     (if k = ''None'' then JNumber (Num 0)
      else if k = ''Normal'' then JNumber (Num 1)
      else if k = ''Soft'' then JNumber (Num 2)
      else if k = ''Drum'' then JNumber (Num 3)
      else if k = ''0'' then JString ''None''
      else if k = ''1'' then JString ''Normal''
      else if k = ''2'' then JString ''Soft''
      else if k = ''3'' then JString ''Drum''
      else if k \<in> set Object_prototype_names then JInherited k
      else JUndefined)"

text \<open>
  Indexing with a number uses the number's decimal string as the key: only 0, 1, 2 and 3
  are written \<open>0\<close>, \<open>1\<close>, \<open>2\<close>, \<open>3\<close>, and no number is written as one of the
  other keys.
\<close>

definition LegacySampleBank_number :: "jsnum \<Rightarrow> jsvalue" where
  "LegacySampleBank_number n =
     (if n = Num 0 then JString ''None''
      else if n = Num 1 then JString ''Normal''
      else if n = Num 2 then JString ''Soft''
      else if n = Num 3 then JString ''Drum''
      else JUndefined)"

text \<open>
  \<open>LegacySampleBank[v]\<close> for any value: \<open>undefined\<close> is the key \<open>undefined\<close> and an
  inherited function or object is its source text, neither a key of the enum.
\<close>

definition LegacySampleBank_get :: "jsvalue \<Rightarrow> jsvalue" where
  "LegacySampleBank_get v =
     (case v of
        JNumber n \<Rightarrow> LegacySampleBank_number n
      | JString s \<Rightarrow> LegacySampleBank_string s
      | JUndefined \<Rightarrow> JUndefined
      | JInherited _ \<Rightarrow> JUndefined)"

text \<open>
  \<open>v.toLowerCase()\<close>: a TypeError unless \<open>v\<close> is a string (\<open>undefined\<close> has no
  properties; a number, a function and an object have no method of that name).
\<close>

definition call_toLowerCase :: "jsvalue \<Rightarrow> error + string" where
  "call_toLowerCase v = (case v of JString s \<Rightarrow> Inr (toLowerCase s) | _ \<Rightarrow> Inl TypeError)"

section \<open>readCustomSampleBanks and convertSoundType\<close>

text \<open>The function mutates \<open>bankInfo\<close>; the model returns the updated record.\<close>

definition readCustomSampleBanks :: "string \<Rightarrow> ISampleBankInfo \<Rightarrow> error + ISampleBankInfo" where
  "readCustomSampleBanks line bankInfo =
     (let split = split_trim CHR '':'' line;
          bank = Number_opt (elem_at split 0);
          addbank = Number_opt (elem_at split 1)
      in case call_toLowerCase (LegacySampleBank_number bank) of
           Inl e \<Rightarrow> Inl e
         | Inr lowerBank \<Rightarrow>
             (let stringBank = (if lowerBank = ''none'' then None else Some lowerBank)
              in case call_toLowerCase (LegacySampleBank_number addbank) of
                   Inl e \<Rightarrow> Inl e
                 | Inr lowerAddBank \<Rightarrow>
                     (let stringAddBank =
                            (if lowerAddBank = ''none'' then None else Some lowerAddBank);
                          b1 = bankInfo\<lparr>Normal := stringBank\<rparr>;
                          b2 = b1\<lparr>Add := (if stringAddBank = Some [] then stringBank
                                          else stringAddBank)\<rparr>;
                          b3 = (if length split > 2
                                then b2\<lparr>CustomSampleBank := Some (Number_opt (elem_at split 2))\<rparr>
                                else b2);
                          b4 = (if length split > 3
                                then b3\<lparr>Volume := Some (Number_opt (elem_at split 3))\<rparr>
                                else b3)
                      in Inr (b4\<lparr>Filename := (if length split > 4 then elem_at split 4
                                                else None)\<rparr>))))"

text \<open>The masks of \<open>LegacySoundType\<close>.\<close>

definition Whistle :: "32 word" where "Whistle = 2"
definition Finish :: "32 word" where "Finish = 4"
definition Clap :: "32 word" where "Clap = 8"

definition named_sample :: "string option \<Rightarrow> string \<Rightarrow> ISampleBankInfo \<Rightarrow> ISampleInfo" where
  "named_sample bank name bankInfo =
     \<lparr>Filename_s = None, Bank = bank, Name = Some name, Volume_s = Volume bankInfo,
      CustomSampleBank_s = CustomSampleBank bankInfo\<rparr>"

definition file_sample :: "string \<Rightarrow> ISampleInfo" where
  "file_sample f =
     \<lparr>Filename_s = Some f, Bank = None, Name = None, Volume_s = None,
      CustomSampleBank_s = None\<rparr>"

text \<open>\<open>bankInfo.Filename && bankInfo.Filename !== ""\<close>.\<close>

definition has_filename :: "ISampleBankInfo \<Rightarrow> bool" where
  "has_filename bankInfo = (case Filename bankInfo of None \<Rightarrow> False | Some f \<Rightarrow> f \<noteq> [])"

definition convertSoundType :: "jsnum \<Rightarrow> ISampleBankInfo \<Rightarrow> ISampleInfo list" where
  "convertSoundType soundType bankInfo =
     (case (if has_filename bankInfo then Filename bankInfo else None) of
        Some f \<Rightarrow> [file_sample f]
      | None \<Rightarrow>
        (let soundTypes0 = [named_sample (Normal bankInfo) ''hitnormal'' bankInfo];
             soundTypes1 =
               (if ToInt32 soundType AND Finish \<noteq> 0
                then soundTypes0 @ [named_sample (Add bankInfo) ''hitfinish'' bankInfo]
                else soundTypes0);
             soundTypes2 =
               (if ToInt32 soundType AND Whistle \<noteq> 0
                then soundTypes1 @ [named_sample (Add bankInfo) ''hitwhistle'' bankInfo]
                else soundTypes1);
             soundTypes3 =
               (if ToInt32 soundType AND Clap \<noteq> 0
                then soundTypes2 @ [named_sample (Add bankInfo) ''hitclap'' bankInfo]
                else soundTypes2)
         in soundTypes3))"

section \<open>The General, Difficulty and TimingPoints decoders\<close>

text \<open>
  \<open>obj[key] = v\<close> with a number, a string or \<open>undefined\<close> for \<open>v\<close>: the key
  \<open>__proto__\<close> is the accessor of \<open>Object.prototype\<close>, whose setter ignores such a
  value; any other key becomes a property of the object.
\<close>

definition set_property :: "(string \<rightharpoonup> 'v) \<Rightarrow> string \<Rightarrow> 'v \<Rightarrow> (string \<rightharpoonup> 'v)" where
  "set_property obj key v = (if key = ''__proto__'' then obj else obj(key \<mapsto> v))"

definition parseGeneral :: "OsuParser \<Rightarrow> string \<Rightarrow> OsuParser" where
  "parseGeneral parser line =
     (let split = split_trim CHR '':'' line
      in if length split = 2 then
           (let key = split ! 0; value = split ! 1; num = Number value
            in if key = ''SampleSet''
               then parser\<lparr>general := (general parser)(key \<mapsto> LegacySampleBank_string value)\<rparr>
               else parser\<lparr>general :=
                      set_property (general parser) key
                        (if num = NaN then JString value else JNumber num)\<rparr>)
         else parser)"

definition parseDifficulty :: "OsuParser \<Rightarrow> string \<Rightarrow> OsuParser" where
  "parseDifficulty parser line =
     (let split = split_trim CHR '':'' line
      in if length split = 2 then
           (let key = split ! 0; value = split ! 1
            in parser\<lparr>difficulty := set_property (difficulty parser) key (Number value)\<rparr>)
         else parser)"

text \<open>The masks of \<open>EffectFlags\<close>.\<close>

definition Kiai :: "32 word" where "Kiai = 1"
definition OmitFirstBarLine_flag :: "32 word" where "OmitFirstBarLine_flag = 8"

text \<open>\<open>TimeSignatures.SimpleQuadruple\<close>.\<close>

definition SimpleQuadruple :: jsnum where "SimpleQuadruple = Num 4"

text \<open>The \<open>timingChange\<close> flag of a record, as lines 217 to 220 compute it.\<close>

definition timingChange_of :: "string list \<Rightarrow> bool" where
  "timingChange_of split = (if length split \<ge> 7 then first_char_is (split ! 6) CHR ''1'' else True)"

definition parseTimingPoint :: "OsuParser \<Rightarrow> string \<Rightarrow> error + OsuParser" where
  "parseTimingPoint parser line =
     (let defaultSampleSet =
            (case general parser ''SampleSet'' of None \<Rightarrow> JUndefined | Some v \<Rightarrow> v);
          split = split_trim CHR '','' line
      in if length split < 2 then Inr parser
         else
           (let time = Number (trim (split ! 0));
                beatLength = Number (trim (split ! 1));
                speedMultiplier =
                  (if js_lt beatLength (Num 0) then js_div (Num 100) (js_neg beatLength)
                   else Num 1);
                timeSignature =
                  (if length split \<ge> 3
                   then (if first_char_is (split ! 2) CHR ''0'' then SimpleQuadruple
                         else Number (split ! 2))
                   else SimpleQuadruple);
                sampleSet =
                  (if length split \<ge> 4 then JNumber (Number (split ! 3)) else defaultSampleSet);
                customSampleBank = (if length split \<ge> 5 then Number (split ! 4) else Num 0);
                sampleVolume = (if length split \<ge> 6 then Number (split ! 5) else Num 100);
                timingChange = timingChange_of split;
                effectFlags = (if length split \<ge> 8 then ToInt32 (Number (split ! 7)) else 0);
                kiaiMode = (if length split \<ge> 8 then effectFlags AND Kiai \<noteq> 0 else False);
                omitFirstBarSignature =
                  (if length split \<ge> 8 then effectFlags AND OmitFirstBarLine_flag \<noteq> 0
                   else False)
            in case call_toLowerCase (LegacySampleBank_get sampleSet) of
                 Inl e \<Rightarrow> Inl e
               | Inr lowered \<Rightarrow>
                   (let stringSampleSet = (if lowered = ''none'' then ''normal'' else lowered);
                        timingPoint =
                          \<lparr>Time = time, BeatLength = None, TimeSignature = None,
                           SpeedMultiplier = speedMultiplier, KiaiMode = kiaiMode,
                           OmitFirstBarLine = omitFirstBarSignature,
                           SampleBank = stringSampleSet, SampleVolume = sampleVolume,
                           CustomSampleBank_t = customSampleBank\<rparr>;
                        timingPoint' =
                          (if timingChange
                           then timingPoint\<lparr>BeatLength := Some beatLength,
                                               TimeSignature := Some timeSignature\<rparr>
                           else timingPoint)
                    in Inr (parser\<lparr>timingPoints := timingPoints parser @ [timingPoint']\<rparr>))))"

section \<open>The HitObjects decoder\<close>

text \<open>The masks of \<open>ConvertHitObjectType\<close>.\<close>

definition Circle :: "32 word" where "Circle = 1"
definition Slider :: "32 word" where "Slider = 2"
definition NewCombo :: "32 word" where "NewCombo = 4"
definition Spinner :: "32 word" where "Spinner = 8"
definition ComboOffset_mask :: "32 word" where "ComboOffset_mask = 112"
definition Hold :: "32 word" where "Hold = 128"

text \<open>
  \<open>isLinear\<close>, lines 306 and 307, called on three points only. The expression is
  \<open>0 - a * b - c * d\<close>, which JavaScript reads as \<open>(0 - a * b) - c * d\<close>; the
  literal \<open>0.001\<close> is the double nearest to it.
\<close>

definition isLinear :: "IVector2D list \<Rightarrow> bool" where
  "isLinear p =
     js_le
       (Math_abs
          (js_sub
             (js_sub (Num 0)
                (js_mul (js_sub (vec_y (p ! 1)) (vec_y (p ! 0)))
                        (js_sub (vec_x (p ! 2)) (vec_x (p ! 0)))))
             (js_mul (js_sub (vec_x (p ! 1)) (vec_x (p ! 0)))
                     (js_sub (vec_y (p ! 2)) (vec_y (p ! 0))))))
       (round_double (1 / 1000))"

text \<open>
  The loops \<open>for (let i = 0; i < nodes; i++)\<close> run for \<open>i = 0, 1, ...\<close> while
  \<open>i < nodes\<close>. Where they stand, \<open>nodes\<close> is NaN or a finite number (a repeat
  count above 9000 has thrown), so they run \<open>trip_count nodes\<close> times; lemmas
  \<open>trip_count_iterations\<close> and \<open>nodes_finite\<close> below say so.
\<close>

fun trip_count :: "jsnum \<Rightarrow> nat" where
  "trip_count (Num a) = nat \<lceil>a\<rceil>"
| "trip_count _ = 0"

text \<open>Lines 333 to 336 and 351 to 354: push the default once per node.\<close>

fun push_default :: "nat \<Rightarrow> 'a \<Rightarrow> 'a list \<Rightarrow> 'a list" where
  "push_default 0 v acc = acc"
| "push_default (Suc k) v acc = push_default k v (acc @ [v])"

text \<open>
  Lines 341 to 347: the first argument counts the iterations left, \<open>i\<close> is the loop
  variable; the loop breaks at the end of \<open>sets\<close> and a throw of
  \<open>readCustomSampleBanks\<close> leaves it.
\<close>

fun readNodeBanks ::
  "nat \<Rightarrow> nat \<Rightarrow> string list \<Rightarrow> ISampleBankInfo list \<Rightarrow> error + ISampleBankInfo list" where
  "readNodeBanks 0 i sets nodeBankInfos = Inr nodeBankInfos"
| "readNodeBanks (Suc k) i sets nodeBankInfos =
     (if i \<ge> length sets then Inr nodeBankInfos
      else (case readCustomSampleBanks (sets ! i) (nodeBankInfos ! i) of
              Inl e \<Rightarrow> Inl e
            | Inr info \<Rightarrow> readNodeBanks k (Suc i) sets (nodeBankInfos[i := info])))"

text \<open>Lines 359 to 366.\<close>

fun readNodeSounds :: "nat \<Rightarrow> nat \<Rightarrow> string list \<Rightarrow> jsnum list \<Rightarrow> jsnum list" where
  "readNodeSounds 0 i adds nodeSoundTypes = nodeSoundTypes"
| "readNodeSounds (Suc k) i adds nodeSoundTypes =
     (if i \<ge> length adds then nodeSoundTypes
      else (let sound = (if Number (adds ! i) = NaN then Num 0 else Number (adds ! i))
            in readNodeSounds k (Suc i) adds (nodeSoundTypes[i := sound])))"

text \<open>Lines 371 to 373.\<close>

fun pushNodeSamples ::
  "nat \<Rightarrow> nat \<Rightarrow> jsnum list \<Rightarrow> ISampleBankInfo list \<Rightarrow> ISampleInfo list list
     \<Rightarrow> ISampleInfo list list" where
  "pushNodeSamples 0 i nodeSoundTypes nodeBankInfos nodeSamples = nodeSamples"
| "pushNodeSamples (Suc k) i nodeSoundTypes nodeBankInfos nodeSamples =
     pushNodeSamples k (Suc i) nodeSoundTypes nodeBankInfos
       (nodeSamples @ [convertSoundType (nodeSoundTypes ! i) (nodeBankInfos ! i)])"

text \<open>Lines 282 to 296: the letter code of the path.\<close>

definition pathType_of :: "string option \<Rightarrow> PathType" where
  "pathType_of ptype =
     (if ptype = Some ''C'' then Catmull
      else if ptype = Some ''B'' then Bezier
      else if ptype = Some ''L'' then Linear
      else if ptype = Some ''P'' then PerfectCurve
      else Catmull)"

text \<open>Lines 300 to 303.\<close>

definition point_of :: "string \<Rightarrow> IVector2D" where
  "point_of t =
     (let temp = split_trim CHR '':'' t
      in \<lparr>vec_x = Number_opt (elem_at temp 0), vec_y = Number_opt (elem_at temp 1)\<rparr>)"

text \<open>
  Lines 332 to 348: the node bank infos, one copy of the object's bank info per node,
  overlaid with the tokens of field 9.
\<close>

definition nodeBankInfos_of ::
  "string list \<Rightarrow> nat \<Rightarrow> ISampleBankInfo \<Rightarrow> error + ISampleBankInfo list" where
  "nodeBankInfos_of split n bankInfo =
     (let nodeBankInfos = push_default n bankInfo []
      in if length split > 9 \<and> length (split ! 9) > 0
         then readNodeBanks n 0 (split_trim CHR ''|'' (split ! 9)) nodeBankInfos
         else Inr nodeBankInfos)"

text \<open>Lines 350 to 367.\<close>

definition nodeSoundTypes_of :: "string list \<Rightarrow> nat \<Rightarrow> jsnum \<Rightarrow> jsnum list" where
  "nodeSoundTypes_of split n soundType =
     (let nodeSoundTypes = push_default n soundType []
      in if length split > 8 \<and> length (split ! 8) > 0
         then readNodeSounds n 0 (split_trim CHR ''|'' (split ! 8)) nodeSoundTypes
         else nodeSoundTypes)"

text \<open>
  Lines 279 to 311 of the slider branch: the path type and the control points of field
  5, with the correction of a perfect curve through three points that \<open>isLinear\<close>
  accepts.
\<close>

definition slider_path :: "string \<Rightarrow> PathType \<times> IVector2D list" where
  "slider_path field5 =
     (let parts = split_trim CHR ''|'' field5;
          pathType = pathType_of (elem_at parts 0);
          pointSplit = drop 1 parts;
          points = map point_of pointSplit
      in if length points = 3 \<and> pathType = PerfectCurve \<and> isLinear points
         then (Linear, points) else (pathType, points))"

text \<open>Lines 313 to 319: the repeat count, or the throw.\<close>

definition repeatCount_of :: "string list \<Rightarrow> error + jsnum" where
  "repeatCount_of split =
     (let repeatCount = Number_opt (elem_at split 6)
      in if js_gt repeatCount (Num 9000) then Inl RepeatCountTooHigh
         else Inr (Math_max (Num 0) (js_sub repeatCount (Num 1))))"

text \<open>Lines 325 to 327: the bank info of the object, read from field 10 when there is one.\<close>

definition slider_bankInfo :: "string list \<Rightarrow> error + ISampleBankInfo" where
  "slider_bankInfo split =
     (if length split > 10 then readCustomSampleBanks (split ! 10) empty_bankInfo
      else Inr empty_bankInfo)"

text \<open>Lines 329 to 373: the samples of the nodes.\<close>

definition nodeSamples_of ::
  "string list \<Rightarrow> jsnum \<Rightarrow> jsnum \<Rightarrow> ISampleBankInfo \<Rightarrow> error + ISampleInfo list list" where
  "nodeSamples_of split repeatCount soundType bankInfo =
     (let nodes = js_add repeatCount (Num 2);
          n = trip_count nodes
      in case nodeBankInfos_of split n bankInfo of
           Inl e \<Rightarrow> Inl e
         | Inr nodeBankInfos \<Rightarrow>
             Inr (pushNodeSamples n 0 (nodeSoundTypes_of split n soundType) nodeBankInfos []))"

text \<open>Line 385: \<open>nodeSamples[nodeSamples.length - 1]\<close>, \<open>undefined\<close> on the empty array.\<close>

definition last_nodeSamples :: "ISampleInfo list list \<Rightarrow> ISampleInfo list option" where
  "last_nodeSamples nodeSamples =
     (if length nodeSamples = 0 then None else elem_at nodeSamples (length nodeSamples - 1))"

text \<open>
  The slider branch, lines 278 to 385. It returns the object's bank info and the
  result; \<open>split[5].split\<close> is a TypeError when the record has no field 5.
\<close>

definition slider_branch ::
  "string list \<Rightarrow> jsnum \<Rightarrow> IVector2D \<Rightarrow> bool \<Rightarrow> jsnum
     \<Rightarrow> error + (ISampleBankInfo \<times> IHitObject)" where
  "slider_branch split soundType pos combo comboOffset =
     (case elem_at split 5 of
        None \<Rightarrow> Inl TypeError
      | Some field5 \<Rightarrow>
          (case repeatCount_of split of
             Inl e \<Rightarrow> Inl e
           | Inr repeatCount \<Rightarrow>
               (case slider_bankInfo split of
                  Inl e \<Rightarrow> Inl e
                | Inr bankInfo \<Rightarrow>
                    (case nodeSamples_of split repeatCount soundType bankInfo of
                       Inl e \<Rightarrow> Inl e
                     | Inr nodeSamples \<Rightarrow>
                         Inr (bankInfo,
                           \<lparr>Combo = Some combo, ComboOffset = Some comboOffset,
                            Points = Some (snd (slider_path field5)),
                            Length =
                              Some (if length split > 7 then Number (split ! 7) else Num 0),
                            PathType = Some (fst (slider_path field5)),
                            RepeatCount = Some repeatCount,
                            NodeSamples = Some nodeSamples,
                            Samples = last_nodeSamples nodeSamples,
                            StartTime = None, Pos_h = Some pos\<rparr>)))))"

text \<open>The circle branch, lines 270 to 277.\<close>

definition circle_branch ::
  "string list \<Rightarrow> IVector2D \<Rightarrow> bool \<Rightarrow> jsnum \<Rightarrow> error + (ISampleBankInfo \<times> IHitObject)" where
  "circle_branch split pos combo comboOffset =
     (let result = empty_result\<lparr>Pos_h := Some pos, Combo := Some combo,
                                  ComboOffset := Some comboOffset\<rparr>
      in if length split > 5
         then (case readCustomSampleBanks (split ! 5) empty_bankInfo of
                 Inl e \<Rightarrow> Inl e
               | Inr bankInfo \<Rightarrow> Inr (bankInfo, result))
         else Inr (empty_bankInfo, result))"

text \<open>
  The type word after lines 257 to 263: \<open>ToInt32\<close> of field 3 with the combo-offset
  bits and the new-combo bit cleared.
\<close>

definition shape_bits :: "string list \<Rightarrow> 32 word" where
  "shape_bits split =
     (ToInt32 (Number_opt (elem_at split 3)) AND NOT ComboOffset_mask) AND NOT NewCombo"

text \<open>
  Lines 392 to 403: a result without a property is dropped; otherwise the start time is
  set, the samples too unless the branch has set them, and the result is pushed.
\<close>

definition push_result ::
  "OsuParser \<Rightarrow> string list \<Rightarrow> jsnum \<Rightarrow> ISampleBankInfo \<Rightarrow> IHitObject \<Rightarrow> OsuParser" where
  "push_result parser split soundType bankInfo result =
     (if result = empty_result then parser
      else
        (let result1 =
               result\<lparr>StartTime := Some (js_add (Number_opt (elem_at split 2)) (Num 0))\<rparr>;
             result2 =
               (if Samples result1 = None
                then result1\<lparr>Samples := Some (convertSoundType soundType bankInfo)\<rparr>
                else result1)
         in parser\<lparr>hitObjects := hitObjects parser @ [result2]\<rparr>))"

definition parseHitObjects :: "OsuParser \<Rightarrow> string \<Rightarrow> error + OsuParser" where
  "parseHitObjects parser line =
     (let split = split_trim CHR '','' line;
          pos = \<lparr>vec_x = Number_opt (elem_at split 0), vec_y = Number_opt (elem_at split 1)\<rparr>;
          type0 = ToInt32 (Number_opt (elem_at split 3));
          comboOffset = of_int32 (signed_drop_bit 4 (type0 AND ComboOffset_mask));
          type1 = type0 AND NOT ComboOffset_mask;
          combo = (type1 AND NewCombo \<noteq> 0);
          type2 = shape_bits split;
          soundType = Number_opt (elem_at split 4)
      in case (if type2 AND Circle \<noteq> 0 then circle_branch split pos combo comboOffset
               else if type2 AND Slider \<noteq> 0
                    then slider_branch split soundType pos combo comboOffset
               else if type2 AND Spinner \<noteq> 0 then Inr (empty_bankInfo, empty_result)
               else if type2 AND Hold \<noteq> 0 then Inr (empty_bankInfo, empty_result)
               else Inr (empty_bankInfo, empty_result)) of
           Inl e \<Rightarrow> Inl e
         | Inr (bankInfo, result) \<Rightarrow> Inr (push_result parser split soundType bankInfo result))"

section \<open>The class OsuParser: parse, parseSection and parseLine\<close>

text \<open>The class \<open>[\\w\\d]\<close> of the regular expression: letters, digits and the underscore.\<close>

definition is_word_char :: "char \<Rightarrow> bool" where
  "is_word_char c =
     (let n = of_char c :: nat
      in (48 \<le> n \<and> n \<le> 57) \<or> (65 \<le> n \<and> n \<le> 90) \<or> (97 \<le> n \<and> n \<le> 122) \<or> n = 95)"

text \<open>
  What follows an opening bracket: the longest run of word characters, which has to be
  non-empty and followed by the closing bracket (a shorter run is followed by a word
  character, so the match cannot succeed by giving characters back).
\<close>

definition match_token :: "string \<Rightarrow> string option" where
  "match_token s =
     (let token = takeWhile is_word_char s; rest = dropWhile is_word_char s
      in if token \<noteq> [] \<and> first_char_is rest CHR '']'' then Some token else None)"

text \<open>
  \<open>/\\[([\\w\\d]+)\\]/g.exec(line)\<close> on a fresh expression: the first group of the
  leftmost match, anywhere in the line.
\<close>

fun regexp_exec :: "string \<Rightarrow> string option" where
  "regexp_exec [] = None"
| "regexp_exec (c # cs) =
     (if c = CHR ''[''
      then (case match_token cs of Some token \<Rightarrow> Some token | None \<Rightarrow> regexp_exec cs)
      else regexp_exec cs)"

definition parseSection :: "OsuParser \<Rightarrow> string \<Rightarrow> OsuParser" where
  "parseSection parser line =
     (case regexp_exec line of
        Some token \<Rightarrow> parser\<lparr>currentSection := token\<rparr>
      | None \<Rightarrow> parser)"

text \<open>
  \<open>parsers[this.currentSection]\<close> finds the four decoders and, \<open>parsers\<close> being an
  object literal, the members of \<open>Object.prototype\<close>. Such a member is called with the
  line and no receiver: \<open>constructor\<close>, \<open>isPrototypeOf\<close> and \<open>toString\<close> return, the
  other functions convert the missing receiver to an object, a TypeError, and
  \<open>__proto__\<close> is an object and no function, a TypeError as well.
\<close>

definition call_inherited :: "string \<Rightarrow> OsuParser \<Rightarrow> error + OsuParser" where
  "call_inherited name parser =
     (if name \<in> {''constructor'', ''isPrototypeOf'', ''toString''} then Inr parser
      else Inl TypeError)"

definition parseLine :: "OsuParser \<Rightarrow> string \<Rightarrow> error + OsuParser" where
  "parseLine parser line =
     (let section = currentSection parser
      in if section = ''General'' then Inr (parseGeneral parser line)
         else if section = ''Difficulty'' then Inr (parseDifficulty parser line)
         else if section = ''TimingPoints'' then parseTimingPoint parser line
         else if section = ''HitObjects'' then parseHitObjects parser line
         else if section \<in> set Object_prototype_names then call_inherited section parser
         else Inr parser)"

definition parse :: "OsuParser \<Rightarrow> string \<Rightarrow> error + OsuParser" where
  "parse parser line =
     (if first_char_is line CHR ''['' then Inr (parseSection parser line)
      else parseLine parser line)"

text \<open>A run over the lines of a file: a throw ends it.\<close>

fun parse_lines :: "OsuParser \<Rightarrow> string list \<Rightarrow> error + OsuParser" where
  "parse_lines parser [] = Inr parser"
| "parse_lines parser (line # lines) =
     (case parse parser line of
        Inl e \<Rightarrow> Inl e
      | Inr parser' \<Rightarrow> parse_lines parser' lines)"

section \<open>Definitions used to state the properties\<close>

text \<open>
  What a per-node token leaves in a node's bank info, in the words of the amended claim
  C7: \<open>e\<close> is the token decoded on its own and \<open>d\<close> the object-level default; the
  custom sample bank and the volume are the token's when the token has a field for
  them, and the default's otherwise.
\<close>

definition token_over_default ::
  "string \<Rightarrow> ISampleBankInfo \<Rightarrow> ISampleBankInfo \<Rightarrow> ISampleBankInfo" where
  "token_over_default token d e =
     e\<lparr>CustomSampleBank :=
          (if length (split_trim CHR '':'' token) > 2 then CustomSampleBank e
           else CustomSampleBank d),
       Volume :=
          (if length (split_trim CHR '':'' token) > 3 then Volume e else Volume d)\<rparr>"

text \<open>
  The pattern of the regular expression of \<open>parseSection\<close>, in the words of the
  amended claim C8: at position \<open>i\<close> the line has an opening bracket, the non-empty run
  \<open>token\<close> of letters, digits and underscores, and a closing bracket.
\<close>

definition bracket_token_at :: "string \<Rightarrow> nat \<Rightarrow> string \<Rightarrow> bool" where
  "bracket_token_at line i token =
     (token \<noteq> [] \<and> list_all is_word_char token \<and>
      take (length token + 2) (drop i line) = CHR ''['' # token @ [CHR '']''])"

section \<open>Properties\<close>

subsection \<open>Rounding to a double\<close>

lemma round_half_even_near: "\<bar>of_int (round_half_even t) - t\<bar> \<le> 1 / 2"
proof -
  have le: "of_int \<lfloor>t\<rfloor> \<le> t" and lt: "t < of_int \<lfloor>t\<rfloor> + 1"
    by linarith+
  consider "t - of_int \<lfloor>t\<rfloor> < 1 / 2" | "1 / 2 < t - of_int \<lfloor>t\<rfloor>"
    | "t - of_int \<lfloor>t\<rfloor> = 1 / 2"
    by linarith
  then show ?thesis
  proof cases
    case 1
    then have "round_half_even t = \<lfloor>t\<rfloor>"
      by (simp add: round_half_even_def)
    with le 1 show ?thesis by simp
  next
    case 2
    then have "round_half_even t = \<lfloor>t\<rfloor> + 1"
      by (simp add: round_half_even_def)
    with lt 2 show ?thesis by simp
  next
    case 3
    then have "round_half_even t = \<lfloor>t\<rfloor> \<or> round_half_even t = \<lfloor>t\<rfloor> + 1"
      by (simp add: round_half_even_def Let_def)
    with 3 show ?thesis by auto
  qed
qed

lemma round_half_even_of_int: "round_half_even (of_int n) = n"
  by (simp add: round_half_even_def)

lemma round_half_even_nonpos: "t \<le> 0 \<Longrightarrow> round_half_even t \<le> 0"
proof -
  assume "t \<le> 0"
  with round_half_even_near [of t] have "(of_int (round_half_even t) :: rat) < 1"
    by (simp add: abs_if split: if_splits)
  then show ?thesis by linarith
qed

lemma round_half_even_nonneg: "0 \<le> t \<Longrightarrow> 0 \<le> round_half_even t"
proof -
  assume "0 \<le> t"
  with round_half_even_near [of t] have "- 1 < (of_int (round_half_even t) :: rat)"
    by (simp add: abs_if split: if_splits)
  then show ?thesis by linarith
qed

lemma powi_diff: "(2 :: rat) powi (m - n) = 2 powi m / 2 powi n"
  by (rule power_int_diff) simp

lemma powi_add: "(2 :: rat) powi m * 2 powi n = 2 powi (m + n)"
  by (rule power_int_add [symmetric]) simp

lemma bitlen_powi:
  assumes "0 < a"
  shows "(2 :: rat) powi (bitlen a - 1) \<le> of_int a" and "of_int a < (2 :: rat) powi bitlen a"
proof -
  from bitlen_bounds [OF assms]
  have lo: "2 ^ nat (bitlen a - 1) \<le> a" and hi: "a < 2 ^ nat (bitlen a)"
    by auto
  from assms have one: "1 \<le> bitlen a"
    by (simp add: bitlen_alt_def)
  from lo have "(of_int (2 ^ nat (bitlen a - 1)) :: rat) \<le> of_int a"
    by (simp only: of_int_le_iff)
  with one show "(2 :: rat) powi (bitlen a - 1) \<le> of_int a"
    by (simp add: power_int_def)
  from hi have "(of_int a :: rat) < of_int (2 ^ nat (bitlen a))"
    by (simp only: of_int_less_iff)
  with one show "of_int a < (2 :: rat) powi bitlen a"
    by (simp add: power_int_def)
qed

lemma binade_bounds:
  assumes "0 < q"
  shows "2 powi binade q \<le> q" and "q < 2 powi (binade q + 1)"
proof -
  obtain a b where ab: "quotient_of q = (a, b)"
    by (cases "quotient_of q")
  then have b: "0 < b" and q: "q = of_int a / of_int b"
    by (auto dest: quotient_of_denom_pos quotient_of_div)
  with assms have a: "0 < a"
    by (simp add: zero_less_divide_iff)
  define d where "d = bitlen a - bitlen b"
  from b q have qb: "q * of_int b = of_int a"
    by simp
  have b_pos: "(0 :: rat) < of_int b"
    using b by simp
  have lower: "2 powi (d - 1) < q"
  proof -
    have "(2 :: rat) powi (bitlen a - 1) \<le> q * of_int b"
      using bitlen_powi(1) [OF a] qb by simp
    also have "\<dots> < q * 2 powi bitlen b"
      using bitlen_powi(2) [OF b] assms by simp
    finally have "(2 :: rat) powi (bitlen a - 1) / 2 powi bitlen b < q"
      by (simp add: pos_divide_less_eq)
    moreover have "(2 :: rat) powi (d - 1) = 2 powi (bitlen a - 1 - bitlen b)"
      by (rule arg_cong [where f = "\<lambda>n. 2 powi n"]) (simp add: d_def)
    then have "(2 :: rat) powi (d - 1) = 2 powi (bitlen a - 1) / 2 powi bitlen b"
      by (simp only: powi_diff)
    ultimately show ?thesis by simp
  qed
  have upper: "q < 2 powi (d + 1)"
  proof -
    have "q * 2 powi (bitlen b - 1) \<le> q * of_int b"
      using bitlen_powi(1) [OF b] assms by simp
    also have "\<dots> < 2 powi bitlen a"
      using bitlen_powi(2) [OF a] qb by simp
    finally have "q < (2 :: rat) powi bitlen a / 2 powi (bitlen b - 1)"
      by (simp add: pos_less_divide_eq)
    moreover have "(2 :: rat) powi (d + 1) = 2 powi (bitlen a - (bitlen b - 1))"
      by (rule arg_cong [where f = "\<lambda>n. 2 powi n"]) (simp add: d_def)
    then have "(2 :: rat) powi (d + 1) = 2 powi bitlen a / 2 powi (bitlen b - 1)"
      by (simp only: powi_diff)
    ultimately show ?thesis by simp
  qed
  have bin: "binade q = (if 2 powi d \<le> q then d else d - 1)"
    by (simp add: binade_def ab d_def Let_def)
  show "2 powi binade q \<le> q"
    using lower by (simp add: bin)
  show "q < 2 powi (binade q + 1)"
    using upper by (simp add: bin not_le)
qed

lemma ulp_of_pos: "0 < ulp_of q"
  by (simp add: ulp_of_def)

lemma ulp_of_le:
  assumes "q \<noteq> 0"
  shows "ulp_of q \<le> \<bar>q\<bar> + 1"
proof (cases "- 1022 \<le> binade \<bar>q\<bar>")
  case True
  then have "ulp_of q = 2 powi (binade \<bar>q\<bar> - 52)"
    by (simp add: ulp_of_def max_def)
  also have "\<dots> \<le> 2 powi binade \<bar>q\<bar>"
    by (rule power_int_increasing) simp_all
  also have "\<dots> \<le> \<bar>q\<bar>"
    using assms by (intro binade_bounds) simp
  finally show ?thesis by simp
next
  case False
  then have "ulp_of q = 2 powi (- 1074)"
    by (simp add: ulp_of_def max_def)
  also have "\<dots> \<le> (2 :: rat) powi 0"
    by (rule power_int_increasing) simp_all
  finally show ?thesis by simp
qed

lemma overflow_iff:
  assumes "v \<noteq> 0"
  shows "1024 \<le> binade \<bar>v\<bar> \<longleftrightarrow> 2 powi 1024 \<le> \<bar>v\<bar>"
proof
  assume "1024 \<le> binade \<bar>v\<bar>"
  then have "(2 :: rat) powi 1024 \<le> 2 powi binade \<bar>v\<bar>"
    by (intro power_int_increasing) simp_all
  also have "\<dots> \<le> \<bar>v\<bar>"
    using assms by (intro binade_bounds) simp
  finally show "2 powi 1024 \<le> \<bar>v\<bar>" .
next
  assume big: "2 powi 1024 \<le> \<bar>v\<bar>"
  show "1024 \<le> binade \<bar>v\<bar>"
  proof (rule ccontr)
    assume "\<not> 1024 \<le> binade \<bar>v\<bar>"
    then have "(2 :: rat) powi (binade \<bar>v\<bar> + 1) \<le> 2 powi 1024"
      by (intro power_int_increasing) simp_all
    moreover have "\<bar>v\<bar> < 2 powi (binade \<bar>v\<bar> + 1)"
      using assms by (intro binade_bounds) simp
    ultimately show False
      using big by simp
  qed
qed

lemma round_double_unfold:
  "round_double q =
     (if of_int (round_half_even (q / ulp_of q)) * ulp_of q \<noteq> 0 \<and>
         1024 \<le> binade \<bar>of_int (round_half_even (q / ulp_of q)) * ulp_of q\<bar>
      then (if q < 0 then NegInfinity else PosInfinity)
      else Num (of_int (round_half_even (q / ulp_of q)) * ulp_of q))"
  by (simp add: round_double_def Let_def round_half_even_def)

lemma abs_scale:
  fixes x y u :: rat
  assumes "0 < u"
  shows "\<bar>x - y / u\<bar> * u = \<bar>x * u - y\<bar>"
proof -
  from assms have "\<bar>x - y / u\<bar> * u = \<bar>(x - y / u) * u\<bar>"
    by (simp add: abs_mult)
  also from assms have "(x - y / u) * u = x * u - y"
    by (simp add: left_diff_distrib)
  finally show ?thesis .
qed

text \<open>
  What \<open>round_double\<close> returns: a value \<open>v\<close> of the sign of \<open>q\<close>, no further from
  \<open>q\<close> than half the distance between doubles, or the infinity of that sign when
  \<open>v\<close> is too large.
\<close>

lemma round_double_near:
  "\<exists>v. round_double q =
          (if v \<noteq> 0 \<and> 1024 \<le> binade \<bar>v\<bar>
           then (if q < 0 then NegInfinity else PosInfinity) else Num v) \<and>
       \<bar>v - q\<bar> \<le> ulp_of q / 2 \<and> (0 \<le> q \<longrightarrow> 0 \<le> v) \<and> (q \<le> 0 \<longrightarrow> v \<le> 0)"
proof -
  define v where "v = of_int (round_half_even (q / ulp_of q)) * ulp_of q"
  have u: "0 < ulp_of q" by (rule ulp_of_pos)
  have "\<bar>of_int (round_half_even (q / ulp_of q)) - q / ulp_of q\<bar> * ulp_of q \<le> 1 / 2 * ulp_of q"
    using u round_half_even_near [of "q / ulp_of q"] by (simp only: mult_le_cancel_right_pos)
  moreover have "\<bar>of_int (round_half_even (q / ulp_of q)) - q / ulp_of q\<bar> * ulp_of q = \<bar>v - q\<bar>"
    unfolding v_def using u by (rule abs_scale)
  ultimately have near: "\<bar>v - q\<bar> \<le> ulp_of q / 2"
    by simp
  have nonneg: "0 \<le> v" if "0 \<le> q"
    using that u by (simp add: v_def round_half_even_nonneg)
  have nonpos: "v \<le> 0" if "q \<le> 0"
  proof -
    from that u have "q / ulp_of q \<le> 0"
      by (simp add: divide_le_0_iff)
    then have "round_half_even (q / ulp_of q) \<le> 0"
      by (rule round_half_even_nonpos)
    with u show ?thesis
      by (simp add: v_def mult_le_0_iff)
  qed
  have "round_double q =
          (if v \<noteq> 0 \<and> 1024 \<le> binade \<bar>v\<bar>
           then (if q < 0 then NegInfinity else PosInfinity) else Num v)"
    unfolding v_def by (rule round_double_unfold)
  with near nonneg nonpos show ?thesis
    by blast
qed

lemma round_double_finite:
  assumes "\<bar>q\<bar> \<le> 2 ^ 100"
  shows "\<exists>v. round_double q = Num v \<and> \<bar>v - q\<bar> \<le> (\<bar>q\<bar> + 1) / 2 \<and>
             (0 \<le> q \<longrightarrow> 0 \<le> v) \<and> (q \<le> 0 \<longrightarrow> v \<le> 0)"
proof -
  from round_double_near [of q] obtain v where
    r: "round_double q =
          (if v \<noteq> 0 \<and> 1024 \<le> binade \<bar>v\<bar>
           then (if q < 0 then NegInfinity else PosInfinity) else Num v)" and
    near: "\<bar>v - q\<bar> \<le> ulp_of q / 2" and
    sign: "0 \<le> q \<longrightarrow> 0 \<le> v" "q \<le> 0 \<longrightarrow> v \<le> 0"
    by blast
  have near': "\<bar>v - q\<bar> \<le> (\<bar>q\<bar> + 1) / 2"
  proof (cases "q = 0")
    case True
    with sign show ?thesis by simp
  next
    case False
    from ulp_of_le [OF this] near show ?thesis by simp
  qed
  define c :: rat where "c = 2 ^ 100"
  define x where "x = \<bar>q\<bar>"
  define y where "y = \<bar>v\<bar>"
  have c: "1 < c" and q: "x \<le> c"
    using assms by (simp_all add: c_def x_def)
  from near' have "y \<le> x + (x + 1) / 2"
    unfolding x_def y_def by linarith
  then have "2 * y \<le> 3 * x + 1"
    by (simp add: field_simps)
  with c q have "y < 2 * c"
    by linarith
  then have "\<bar>v\<bar> < 2 * c"
    by (simp only: y_def)
  also have "2 * c = 2 powi 101"
    by (simp add: c_def)
  finally have small: "\<bar>v\<bar> < 2 powi 101" .
  have "\<not> 1024 \<le> binade \<bar>v\<bar>" if "v \<noteq> 0"
  proof
    assume "1024 \<le> binade \<bar>v\<bar>"
    then have "(2 :: rat) powi 101 \<le> 2 powi binade \<bar>v\<bar>"
      by (intro power_int_increasing) simp_all
    also have "\<dots> \<le> \<bar>v\<bar>"
      using that by (intro binade_bounds) simp
    finally have "2 powi 101 \<le> \<bar>v\<bar>" .
    then show False
      using small by (blast dest: leD)
  qed
  with r have "round_double q = Num v"
    by auto
  with near' sign show ?thesis
    by blast
qed

lemma round_double_nonpos:
  assumes "q \<le> 0"
  shows "round_double q = NegInfinity \<or> (\<exists>v\<le>0. round_double q = Num v)"
proof -
  from round_double_near [of q] assms obtain v where
    r: "round_double q =
       (if v \<noteq> 0 \<and> 1024 \<le> binade \<bar>v\<bar>
        then (if q < 0 then NegInfinity else PosInfinity) else Num v)"
    and v: "v \<le> 0" and z: "0 \<le> q \<longrightarrow> 0 \<le> v"
    by blast
  show ?thesis
  proof (cases "v \<noteq> 0 \<and> 1024 \<le> binade \<bar>v\<bar>")
    case True
    with v z assms have "q < 0"
      by (cases "q = 0") auto
    with r True show ?thesis by simp
  next
    case False
    with r v show ?thesis by auto
  qed
qed

lemma round_double_dyadic:
  assumes "\<bar>k\<bar> < 2 ^ 53" and "n \<le> 1022"
  shows "round_double (of_int k / 2 ^ n) = Num (of_int k / 2 ^ n)"
proof (cases "k = 0")
  case True
  then show ?thesis by (simp add: round_double_def)
next
  case False
  let ?q = "of_int k / 2 ^ n :: rat"
  let ?e = "max (binade \<bar>?q\<bar>) (- 1022)"
  have pos: "0 < \<bar>?q\<bar>"
    using False by simp
  have q_abs: "\<bar>?q\<bar> = \<bar>of_int k\<bar> * 2 powi (- int n)"
    by (simp add: power_int_minus divide_inverse abs_mult)
  have "\<bar>of_int k :: rat\<bar> < 2 powi 53"
    using assms(1) by (simp flip: of_int_abs add: of_int_less_numeral_power_cancel_iff)
  then have "\<bar>?q\<bar> < 2 powi 53 * 2 powi (- int n)"
    unfolding q_abs by (simp only: mult_less_cancel_right_pos zero_less_power_int zero_less_numeral)
  also have "\<dots> = 2 powi (53 + - int n)"
    by (rule powi_add)
  finally have lt: "\<bar>?q\<bar> < 2 powi (53 - int n)"
    by (simp only: diff_conv_add_uminus)
  have "2 powi binade \<bar>?q\<bar> \<le> \<bar>?q\<bar>"
    using pos by (rule binade_bounds)
  with lt have lt2: "(2 :: rat) powi binade \<bar>?q\<bar> < 2 powi (53 - int n)"
    by simp
  have "binade \<bar>?q\<bar> < 53 - int n"
  proof (rule ccontr)
    assume "\<not> binade \<bar>?q\<bar> < 53 - int n"
    then have "(2 :: rat) powi (53 - int n) \<le> 2 powi binade \<bar>?q\<bar>"
      by (intro power_int_increasing) simp_all
    with lt2 show False by simp
  qed
  with assms(2) have e: "?e \<le> 52 - int n"
    by simp
  define m where "m = nat (52 - int n - ?e)"
  have ulp: "ulp_of ?q = 2 powi (- int n) * 2 powi (- int m)"
  proof -
    have "ulp_of ?q = 2 powi (?e - 52)"
      by (simp only: ulp_of_def)
    also have "\<dots> = 2 powi (- int n + - int m)"
      using e by (intro arg_cong [where f = "\<lambda>x. 2 powi x"]) (simp add: m_def)
    also have "\<dots> = 2 powi (- int n) * 2 powi (- int m)"
      by (rule powi_add [symmetric])
    finally show ?thesis .
  qed
  have pm: "(2 :: rat) powi (- int m) = 1 / 2 ^ m" and pn: "(2 :: rat) powi (- int n) = 1 / 2 ^ n"
    by (simp_all add: power_int_minus field_simps)
  have "?q / ulp_of ?q = of_int (k * 2 ^ m)"
    by (simp add: ulp pm pn)
  then have "round_half_even (?q / ulp_of ?q) = k * 2 ^ m"
    by (simp only: round_half_even_of_int)
  then have v: "of_int (round_half_even (?q / ulp_of ?q)) * ulp_of ?q = ?q"
    by (simp add: ulp pm pn)
  have "\<not> 1024 \<le> binade \<bar>?q\<bar>"
    using \<open>binade \<bar>?q\<bar> < 53 - int n\<close> by simp
  with v show ?thesis
    by (simp only: round_double_unfold [of ?q] simp_thms if_False)
qed

lemma round_double_of_int:
  assumes "\<bar>k\<bar> < 2 ^ 53"
  shows "round_double (of_int k) = Num (of_int k)"
  using round_double_dyadic [OF assms, of 0] by simp

subsection \<open>Splitting, loops and the slider branch\<close>

lemma split_js_not_Nil: "split_js sep s \<noteq> []"
  by (induction s) (auto split: list.splits)

lemma length_split_js: "length (split_js sep s) = Suc (count_list s sep)"
  by (induction s) (auto split: list.splits simp: split_js_not_Nil)

lemma push_default_replicate: "push_default n v acc = acc @ replicate n v"
  by (induction n arbitrary: acc) (auto simp: replicate_app_Cons_same)

lemma pushNodeSamples_map:
  "pushNodeSamples k i sts infos acc =
     acc @ map (\<lambda>j. convertSoundType (sts ! j) (infos ! j)) [i..<i + k]"
proof (induction k arbitrary: i acc)
  case 0
  then show ?case by simp
next
  case (Suc k)
  have "[i..<i + Suc k] = i # [Suc i..<Suc i + k]"
    by (simp add: upt_conv_Cons)
  with Suc show ?case by simp
qed

lemma readNodeBanks_result:
  assumes "readNodeBanks k i sets infos = Inr infos'"
    and "i + k \<le> length infos"
  shows "length infos' = length infos \<and>
         (\<forall>j < length infos.
            (if i \<le> j \<and> j < i + k \<and> j < length sets
             then readCustomSampleBanks (sets ! j) (infos ! j) = Inr (infos' ! j)
             else infos' ! j = infos ! j))"
  using assms
proof (induction k arbitrary: i infos)
  case 0
  then show ?case by auto
next
  case (Suc k)
  show ?case
  proof (cases "i \<ge> length sets")
    case True
    with Suc.prems show ?thesis by auto
  next
    case False
    with Suc.prems obtain info where
      rd: "readCustomSampleBanks (sets ! i) (infos ! i) = Inr info" and
      rest: "readNodeBanks k (Suc i) sets (infos[i := info]) = Inr infos'"
      by (auto split: sum.splits)
    from Suc.prems have "Suc i + k \<le> length (infos[i := info])" by simp
    from Suc.IH [OF rest this]
    have len: "length infos' = length infos"
      and ih: "\<And>j. j < length infos \<Longrightarrow>
            (if Suc i \<le> j \<and> j < Suc i + k \<and> j < length sets
             then readCustomSampleBanks (sets ! j) (infos[i := info] ! j) = Inr (infos' ! j)
             else infos' ! j = infos[i := info] ! j)"
      by auto
    show ?thesis
    proof (intro conjI allI impI)
      show "length infos' = length infos" by (rule len)
    next
      fix j assume j: "j < length infos"
      show "if i \<le> j \<and> j < i + Suc k \<and> j < length sets
            then readCustomSampleBanks (sets ! j) (infos ! j) = Inr (infos' ! j)
            else infos' ! j = infos ! j"
      proof (cases "j = i")
        case True
        with ih [OF j] j rd False show ?thesis by simp
      next
        case False
        with ih [OF j] j show ?thesis by (auto split: if_splits)
      qed
    qed
  qed
qed

lemma trip_count_iterations:
  "nodes \<noteq> PosInfinity \<Longrightarrow> js_lt (Num (of_nat i)) nodes \<longleftrightarrow> i < trip_count nodes"
proof (cases nodes)
  case (Num a)
  have "of_nat i < a \<longleftrightarrow> int i < \<lceil>a\<rceil>"
    by (simp add: less_ceiling_iff)
  then show ?thesis using Num by auto
qed auto

lemma Math_max_zero_nonpos:
  "x = NegInfinity \<or> (\<exists>v\<le>0. x = Num v) \<Longrightarrow> Math_max (Num 0) x = Num 0"
  by (auto simp: Math_max_def)

text \<open>The repeat count \<open>Math.max(0, repeatCount - 1)\<close> of lines 313 to 319.\<close>

lemma repeatCount_low:
  assumes "r < 1"
  shows "Math_max (Num 0) (js_sub (Num r) (Num 1)) = Num 0"
proof -
  from assms have "r + - 1 \<le> 0" by simp
  from round_double_nonpos [OF this] show ?thesis
    by (simp add: js_sub_def Math_max_zero_nonpos)
qed

lemma repeatCount_int:
  assumes "1 \<le> k" and "k < 2 ^ 53"
  shows "Math_max (Num 0) (js_sub (Num (of_int k)) (Num 1)) = Num (of_int (k - 1))"
proof -
  from assms have "\<bar>k - 1\<bar> < 2 ^ 53" by simp
  from round_double_of_int [OF this]
  have "js_sub (Num (of_int k)) (Num 1) = Num (of_int (k - 1))"
    by (simp add: js_sub_def)
  with assms(1) show ?thesis
    by (simp add: Math_max_def)
qed

lemma repeatCount_bounded:
  assumes "r \<le> 9000"
  shows "\<exists>w. Math_max (Num 0) (js_sub (Num r) (Num 1)) = Num w \<and> 0 \<le> w \<and> w \<le> 14000"
proof (cases "r < 1")
  case True
  then show ?thesis by (simp add: repeatCount_low)
next
  case False
  with assms have q: "0 \<le> r + - 1" "r + - 1 \<le> 8999"
    by simp_all
  then have "\<bar>r + - 1\<bar> \<le> 2 ^ 100"
    by simp
  from round_double_finite [OF this] q(1) obtain v where
    v: "round_double (r + - 1) = Num v" "\<bar>v - (r + - 1)\<bar> \<le> (\<bar>r + - 1\<bar> + 1) / 2" "0 \<le> v"
    by blast
  from v(2) q have "2 * \<bar>v - (r + - 1)\<bar> \<le> 9000"
    by (simp add: field_simps)
  with q have "v \<le> 14000"
    by (simp add: abs_if split: if_splits)
  with v(1,3) show ?thesis
    by (auto simp: js_sub_def Math_max_def)
qed

lemma repeatCount_cases:
  assumes "\<not> js_gt raw (Num 9000)"
  shows "(raw = NaN \<and> Math_max (Num 0) (js_sub raw (Num 1)) = NaN) \<or>
         (\<exists>w. Math_max (Num 0) (js_sub raw (Num 1)) = Num w \<and> 0 \<le> w \<and> w \<le> 14000)"
proof (cases raw)
  case NaN
  then show ?thesis by (simp add: Math_max_def js_sub_def)
next
  case (Num r)
  with assms have "r \<le> 9000" by (simp add: js_gt_def)
  from repeatCount_bounded [OF this] Num show ?thesis by simp
next
  case PosInfinity
  with assms show ?thesis by (simp add: js_gt_def)
next
  case NegInfinity
  then show ?thesis by (simp add: js_sub_def Math_max_def)
qed

text \<open>The number of nodes \<open>repeatCount + 2\<close> of line 330.\<close>

lemma nodes_positive:
  assumes "0 \<le> w" and "w \<le> 14000"
  shows "\<exists>nodes. js_add (Num w) (Num 2) = Num nodes \<and> 0 < nodes"
proof -
  from assms have "\<bar>w + 2\<bar> \<le> 2 ^ 100"
    by simp
  from round_double_finite [OF this] obtain v where
    v: "round_double (w + 2) = Num v" "\<bar>v - (w + 2)\<bar> \<le> (\<bar>w + 2\<bar> + 1) / 2"
    by blast
  from v(2) assms(1) have "2 * \<bar>v - (w + 2)\<bar> \<le> w + 3"
    by (simp add: field_simps)
  with assms(1) have "0 < v"
    by (simp add: abs_if split: if_splits)
  with v(1) show ?thesis by simp
qed

lemma nodes_int:
  assumes "0 \<le> j" and "j < 2 ^ 52"
  shows "js_add (Num (of_int j)) (Num 2) = Num (of_int (j + 2))"
proof -
  from assms have "\<bar>j + 2\<bar> < 2 ^ 53" by simp
  from round_double_of_int [OF this] show ?thesis
    by simp
qed

text \<open>The loops over the nodes end: \<open>nodes\<close> is never \<open>Infinity\<close>.\<close>

lemma nodes_finite:
  assumes "\<not> js_gt raw (Num 9000)"
  shows "js_add (Math_max (Num 0) (js_sub raw (Num 1))) (Num 2) \<noteq> PosInfinity"
proof -
  from repeatCount_cases [OF assms] show ?thesis
  proof (elim disjE conjE exE)
    assume "Math_max (Num 0) (js_sub raw (Num 1)) = NaN"
    then show ?thesis by simp
  next
    fix w assume w: "Math_max (Num 0) (js_sub raw (Num 1)) = Num w" "0 \<le> w" "w \<le> 14000"
    from nodes_positive [OF w(2,3)] w(1) show ?thesis by auto
  qed
qed

lemma repeatCount_of_too_high:
  "js_gt (Number_opt (elem_at split 6)) (Num 9000) \<Longrightarrow>
     repeatCount_of split = Inl RepeatCountTooHigh"
  by (simp add: repeatCount_of_def)

lemma repeatCount_of_Inr:
  "repeatCount_of split = Inr rc \<longleftrightarrow>
     \<not> js_gt (Number_opt (elem_at split 6)) (Num 9000) \<and>
     rc = Math_max (Num 0) (js_sub (Number_opt (elem_at split 6)) (Num 1))"
  by (auto simp: repeatCount_of_def Let_def)

lemma slider_branch_too_high:
  assumes "js_gt (Number_opt (elem_at split 6)) (Num 9000)"
  shows "slider_branch split st pos cb co = Inl RepeatCountTooHigh"
proof -
  from assms have "elem_at split 6 \<noteq> None"
    by (cases "elem_at split 6") (auto simp: Number_opt_def js_gt_def)
  then have "6 < length split"
    by (auto simp: elem_at_def split: if_splits)
  then obtain f where "elem_at split 5 = Some f"
    by (auto simp: elem_at_def)
  with assms show ?thesis
    by (simp add: slider_branch_def repeatCount_of_too_high)
qed

lemma slider_branch_Inr:
  assumes "slider_branch split st pos cb co = Inr (b, h)"
  shows "\<exists>rc ns. repeatCount_of split = Inr rc \<and> slider_bankInfo split = Inr b \<and>
           nodeSamples_of split rc st b = Inr ns \<and>
           RepeatCount h = Some rc \<and> NodeSamples h = Some ns \<and>
           Samples h = last_nodeSamples ns \<and> Combo h = Some cb \<and>
           (\<exists>f. elem_at split 5 = Some f \<and> PathType h = Some (fst (slider_path f)) \<and>
                Points h = Some (snd (slider_path f)))"
  using assms
  by (auto simp: slider_branch_def split: option.splits sum.splits)

lemma push_result_fields:
  assumes "Combo h \<noteq> None"
  shows "\<exists>h'. push_result parser split st b h =
                 parser\<lparr>hitObjects := hitObjects parser @ [h']\<rparr> \<and>
              RepeatCount h' = RepeatCount h \<and> NodeSamples h' = NodeSamples h \<and>
              PathType h' = PathType h \<and> Points h' = Points h \<and>
              Samples h' = (if Samples h = None then Some (convertSoundType st b)
                            else Samples h)"
proof -
  from assms have ne: "h \<noteq> empty_result"
    by (auto simp: empty_result_def)
  let ?t = "Some (js_add (Number_opt (elem_at split 2)) (Num 0))"
  show ?thesis
  proof (cases "Samples h = None")
    case True
    with ne show ?thesis
      by (intro exI [of _ "h\<lparr>StartTime := ?t, Samples := Some (convertSoundType st b)\<rparr>"])
         (simp add: push_result_def Let_def)
  next
    case False
    with ne show ?thesis
      by (intro exI [of _ "h\<lparr>StartTime := ?t\<rparr>"]) (simp add: push_result_def Let_def)
  qed
qed

lemma parseHitObjects_slider:
  assumes "split = split_trim CHR '','' line"
    and "shape_bits split AND Circle = 0"
    and "shape_bits split AND Slider \<noteq> 0"
  shows "\<exists>pos cb co. parseHitObjects parser line =
           (case slider_branch split (Number_opt (elem_at split 4)) pos cb co of
              Inl e \<Rightarrow> Inl e
            | Inr (b, h) \<Rightarrow> Inr (push_result parser split (Number_opt (elem_at split 4)) b h))"
  using assms by (auto simp: parseHitObjects_def Let_def)

lemma parseHitObjects_slider_too_high:
  assumes "split = split_trim CHR '','' line"
    and "shape_bits split AND Circle = 0"
    and "shape_bits split AND Slider \<noteq> 0"
    and "js_gt (Number_opt (elem_at split 6)) (Num 9000)"
  shows "parseHitObjects parser line = Inl RepeatCountTooHigh"
  using parseHitObjects_slider [OF assms(1-3), of parser] assms(4)
  by (auto simp: slider_branch_too_high)

lemma parseHitObjects_slider_emitted:
  assumes "split = split_trim CHR '','' line"
    and "shape_bits split AND Circle = 0"
    and "shape_bits split AND Slider \<noteq> 0"
    and "parseHitObjects parser line = Inr parser'"
  shows "\<exists>pos cb co b h h'.
           slider_branch split (Number_opt (elem_at split 4)) pos cb co = Inr (b, h) \<and>
           hitObjects parser' = hitObjects parser @ [h'] \<and>
           RepeatCount h' = RepeatCount h \<and> NodeSamples h' = NodeSamples h \<and>
           PathType h' = PathType h \<and> Points h' = Points h \<and>
           Samples h' = (if Samples h = None
                         then Some (convertSoundType (Number_opt (elem_at split 4)) b)
                         else Samples h)"
proof -
  let ?st = "Number_opt (elem_at split 4)"
  from parseHitObjects_slider [OF assms(1-3), of parser] assms(4)
  obtain pos cb co where
    eq: "(case slider_branch split ?st pos cb co of
            Inl e \<Rightarrow> Inl e
          | Inr (b, h) \<Rightarrow> Inr (push_result parser split ?st b h)) = Inr parser'"
    by auto
  then obtain b h where sb: "slider_branch split ?st pos cb co = Inr (b, h)"
    by (cases "slider_branch split ?st pos cb co") auto
  with eq have p': "parser' = push_result parser split ?st b h"
    by simp
  from slider_branch_Inr [OF sb] have "Combo h \<noteq> None"
    by auto
  from push_result_fields [OF this, of parser split ?st b] p' sb
  show ?thesis
    by (metis (no_types, lifting) OsuParser.select_convs(5) OsuParser.surjective
        OsuParser.update_convs(5))
qed

lemma parse_HitObjects_line:
  "currentSection parser = ''HitObjects'' \<Longrightarrow> \<not> first_char_is line CHR ''['' \<Longrightarrow>
     parse parser line = parseHitObjects parser line"
  by (simp add: parse_def parseLine_def)

lemma nodeSamples_of_length:
  "nodeSamples_of split rc st b = Inr ns \<Longrightarrow> length ns = trip_count (js_add rc (Num 2))"
  by (auto simp: nodeSamples_of_def Let_def pushNodeSamples_map split: sum.splits)

lemma last_nodeSamples_last:
  "ns \<noteq> [] \<Longrightarrow> last_nodeSamples ns = Some (last ns)"
  by (simp add: last_nodeSamples_def elem_at_def last_conv_nth)

lemma readCustomSampleBanks_over_default:
  assumes "readCustomSampleBanks token d = Inr d'"
  shows "\<exists>e. readCustomSampleBanks token empty_bankInfo = Inr e \<and>
             d' = token_over_default token d e"
proof -
  let ?split = "split_trim CHR '':'' token"
  obtain lb where lb:
    "call_toLowerCase (LegacySampleBank_number (Number_opt (elem_at ?split 0))) = Inr lb"
    using assms
    by (cases "call_toLowerCase (LegacySampleBank_number (Number_opt (elem_at ?split 0)))")
       (simp_all add: readCustomSampleBanks_def Let_def)
  obtain la where la:
    "call_toLowerCase (LegacySampleBank_number (Number_opt (elem_at ?split 1))) = Inr la"
    using assms lb
    by (cases "call_toLowerCase (LegacySampleBank_number (Number_opt (elem_at ?split 1)))")
       (simp_all add: readCustomSampleBanks_def Let_def)
  obtain f n a v c where d: "d = \<lparr>Filename = f, Normal = n, Add = a, Volume = v,
      CustomSampleBank = c\<rparr>"
    by (cases d) auto
  from assms lb la show ?thesis
    by (auto simp: readCustomSampleBanks_def Let_def token_over_default_def empty_bankInfo_def d)
qed

lemma nodeBankInfos_of_result:
  assumes "nodeBankInfos_of split n b = Inr infos"
  shows "length infos = n \<and>
         (\<forall>i < n.
            (if length split > 9 \<and> split ! 9 \<noteq> [] \<and> i < length (split_trim CHR ''|'' (split ! 9))
             then readCustomSampleBanks (split_trim CHR ''|'' (split ! 9) ! i) b = Inr (infos ! i)
             else infos ! i = b))"
proof (cases "length split > 9 \<and> length (split ! 9) > 0")
  case True
  with assms have rd:
    "readNodeBanks n 0 (split_trim CHR ''|'' (split ! 9)) (replicate n b) = Inr infos"
    by (simp add: nodeBankInfos_of_def Let_def push_default_replicate)
  have "0 + n \<le> length (replicate n b)"
    by simp
  from readNodeBanks_result [OF rd this] True show ?thesis
    by auto
next
  case False
  with assms have "infos = replicate n b"
    by (auto simp: nodeBankInfos_of_def Let_def push_default_replicate)
  with False show ?thesis
    by auto
qed

lemma nodeSamples_of_Inr:
  assumes "nodeSamples_of split rc st b = Inr ns"
  shows "\<exists>infos. nodeBankInfos_of split (trip_count (js_add rc (Num 2))) b = Inr infos \<and>
           ns = map (\<lambda>i. convertSoundType
                       (nodeSoundTypes_of split (trip_count (js_add rc (Num 2))) st ! i)
                       (infos ! i))
                  [0..<trip_count (js_add rc (Num 2))]"
  using assms
  by (auto simp: nodeSamples_of_def Let_def pushNodeSamples_map split: sum.splits)

subsection \<open>The section header expression\<close>

lemma takeWhile_token:
  "list_all is_word_char token \<Longrightarrow>
     takeWhile is_word_char (token @ CHR '']'' # rest) = token \<and>
     dropWhile is_word_char (token @ CHR '']'' # rest) = CHR '']'' # rest"
  by (induction token) (auto simp: is_word_char_def)

lemma regexp_exec_header:
  "token \<noteq> [] \<Longrightarrow> list_all is_word_char token \<Longrightarrow>
     regexp_exec (CHR ''['' # token @ CHR '']'' # rest) = Some token"
  by (simp add: match_token_def takeWhile_token first_char_is_def)

lemma take_Suc_snoc:
  assumes "take (Suc (length t)) s = t @ [c]"
  shows "s = t @ c # drop (Suc (length t)) s"
proof -
  have "s = take (Suc (length t)) s @ drop (Suc (length t)) s"
    by simp
  with assms show ?thesis
    by simp
qed

lemma match_token_Some:
  assumes "match_token s = Some t"
  shows "t \<noteq> [] \<and> list_all is_word_char t \<and> take (Suc (length t)) s = t @ [CHR '']'']"
proof -
  let ?d = "dropWhile is_word_char s"
  from assms have t: "t = takeWhile is_word_char s" and ne: "t \<noteq> []"
    and fc: "first_char_is ?d CHR '']''"
    by (auto simp: match_token_def Let_def split: if_splits)
  from fc obtain rest where d: "?d = CHR '']'' # rest"
    by (cases ?d) (auto simp: first_char_is_def)
  have "s = t @ ?d"
    by (simp add: t)
  with d have s: "s = t @ CHR '']'' # rest"
    by simp
  have "take (Suc (length t)) (t @ CHR '']'' # rest) = t @ [CHR '']'']"
    by simp
  with s have "take (Suc (length t)) s = t @ [CHR '']'']"
    by simp
  moreover have "list_all is_word_char t"
    unfolding t list_all_iff by (auto dest: set_takeWhileD)
  ultimately show ?thesis
    using ne by simp
qed

lemma match_token_iff:
  "match_token s = Some t \<longleftrightarrow>
     t \<noteq> [] \<and> list_all is_word_char t \<and> take (Suc (length t)) s = t @ [CHR '']'']"
proof
  assume "match_token s = Some t"
  then show "t \<noteq> [] \<and> list_all is_word_char t \<and> take (Suc (length t)) s = t @ [CHR '']'']"
    by (rule match_token_Some)
next
  assume r: "t \<noteq> [] \<and> list_all is_word_char t \<and> take (Suc (length t)) s = t @ [CHR '']'']"
  then have "s = t @ CHR '']'' # drop (Suc (length t)) s"
    by (intro take_Suc_snoc) simp
  then obtain rest where s: "s = t @ CHR '']'' # rest" ..
  from r show "match_token s = Some t"
    unfolding s by (simp add: match_token_def takeWhile_token first_char_is_def)
qed

lemma bracket_token_at_Nil: "\<not> bracket_token_at [] i t"
  by (simp add: bracket_token_at_def)

lemma bracket_token_at_0:
  "bracket_token_at (c # cs) 0 t \<longleftrightarrow> c = CHR ''['' \<and> match_token cs = Some t"
  by (auto simp: bracket_token_at_def match_token_iff)

lemma bracket_token_at_Suc:
  "bracket_token_at (c # cs) (Suc i) t \<longleftrightarrow> bracket_token_at cs i t"
  by (simp add: bracket_token_at_def)

lemma bracket_token_at_unique:
  "bracket_token_at line i t \<Longrightarrow> bracket_token_at line i u \<Longrightarrow> t = u"
proof (induction line arbitrary: i)
  case Nil
  then show ?case
    by (simp add: bracket_token_at_Nil)
next
  case (Cons c cs)
  then show ?case
    by (cases i) (auto simp: bracket_token_at_0 bracket_token_at_Suc)
qed

lemma regexp_exec_None:
  "regexp_exec line = None \<Longrightarrow> \<not> bracket_token_at line i t"
proof (induction line arbitrary: i)
  case Nil
  then show ?case
    by (simp add: bracket_token_at_Nil)
next
  case (Cons c cs)
  then show ?case
    by (cases i)
       (auto simp: bracket_token_at_0 bracket_token_at_Suc split: if_splits option.splits)
qed

lemma regexp_exec_Some:
  "regexp_exec line = Some t \<Longrightarrow>
     \<exists>i. bracket_token_at line i t \<and> (\<forall>j<i. \<forall>u. \<not> bracket_token_at line j u)"
proof (induction line)
  case Nil
  then show ?case
    by simp
next
  case (Cons c cs)
  show ?case
  proof (cases "c = CHR ''['' \<and> match_token cs = Some t")
    case True
    then have "bracket_token_at (c # cs) 0 t"
      by (simp add: bracket_token_at_0)
    then show ?thesis
      by (intro exI [of _ 0]) simp
  next
    case False
    with Cons.prems have rest: "regexp_exec cs = Some t"
      and none: "\<not> (\<exists>u. c = CHR ''['' \<and> match_token cs = Some u)"
      by (auto split: if_splits option.splits)
    from Cons.IH [OF rest] obtain i where
      i: "bracket_token_at cs i t" and
      left: "\<forall>j<i. \<forall>u. \<not> bracket_token_at cs j u"
      by blast
    have "\<not> bracket_token_at (c # cs) j u" if "j < Suc i" for j u
    proof (cases j)
      case 0
      with none show ?thesis
        by (simp add: bracket_token_at_0)
    next
      case (Suc k)
      with that left show ?thesis
        by (simp add: bracket_token_at_Suc)
    qed
    with i show ?thesis
      by (intro exI [of _ "Suc i"]) (simp add: bracket_token_at_Suc)
  qed
qed

text \<open>
  The section after a line that starts with the bracket, with no reference to how the
  match is searched: the token of the leftmost occurrence, the old section when there
  is no occurrence.
\<close>

lemma parseSection_leftmost:
  assumes "bracket_token_at line i token"
    and "\<forall>j<i. \<forall>t. \<not> bracket_token_at line j t"
  shows "currentSection (parseSection parser line) = token"
proof (cases "regexp_exec line")
  case None
  from regexp_exec_None [OF this] assms(1) show ?thesis
    by blast
next
  case (Some t0)
  from regexp_exec_Some [OF this] obtain i0 where
    i0: "bracket_token_at line i0 t0" and
    left: "\<forall>j<i0. \<forall>u. \<not> bracket_token_at line j u"
    by blast
  have "i0 = i"
  proof (rule ccontr)
    assume "i0 \<noteq> i"
    then consider "i0 < i" | "i < i0"
      by linarith
    then show False
    proof cases
      case 1
      with assms(2) i0 show False
        by blast
    next
      case 2
      with left assms(1) show False
        by blast
    qed
  qed
  with i0 assms(1) have "t0 = token"
    by (auto intro: bracket_token_at_unique)
  with Some show ?thesis
    by (simp add: parseSection_def)
qed

lemma parseSection_no_token:
  assumes "\<forall>i t. \<not> bracket_token_at line i t"
  shows "parseSection parser line = parser"
proof (cases "regexp_exec line")
  case None
  then show ?thesis
    by (simp add: parseSection_def)
next
  case (Some t0)
  from regexp_exec_Some [OF this] assms show ?thesis
    by blast
qed

lemma parseSection_document:
  "general (parseSection parser line) = general parser \<and>
   difficulty (parseSection parser line) = difficulty parser \<and>
   timingPoints (parseSection parser line) = timingPoints parser \<and>
   hitObjects (parseSection parser line) = hitObjects parser"
  by (cases "regexp_exec line") (simp_all add: parseSection_def)

subsection \<open>Sliders that are emitted\<close>

text \<open>
  A slider record with field 5, without the fields 9 and 10 (the bank tokens) and with
  a repeat field that is not above 9000 is emitted.
\<close>

lemma slider_branch_emits:
  assumes "5 < length split" and "length split \<le> 9"
    and "\<not> js_gt (Number_opt (elem_at split 6)) (Num 9000)"
  shows "\<exists>b h. slider_branch split st pos cb co = Inr (b, h)"
  using assms
  by (simp add: slider_branch_def elem_at_def repeatCount_of_def slider_bankInfo_def
        nodeSamples_of_def nodeBankInfos_of_def Let_def)

lemma parseHitObjects_slider_emits:
  assumes "split = split_trim CHR '','' line"
    and "shape_bits split AND Circle = 0"
    and "shape_bits split AND Slider \<noteq> 0"
    and "5 < length split" and "length split \<le> 9"
    and "\<not> js_gt (Number_opt (elem_at split 6)) (Num 9000)"
  shows "\<exists>parser'. parseHitObjects parser line = Inr parser'"
proof -
  from parseHitObjects_slider [OF assms(1-3), of parser] obtain pos cb co where
    p: "parseHitObjects parser line =
          (case slider_branch split (Number_opt (elem_at split 4)) pos cb co of
             Inl e \<Rightarrow> Inl e
           | Inr (b, h) \<Rightarrow> Inr (push_result parser split (Number_opt (elem_at split 4)) b h))"
    by blast
  from slider_branch_emits [OF assms(4-6)] obtain b h where
    "slider_branch split (Number_opt (elem_at split 4)) pos cb co = Inr (b, h)"
    by blast
  with p show ?thesis
    by simp
qed

lemma field6_present:
  "Number_opt (elem_at split 6) \<noteq> NaN \<Longrightarrow> 5 < length split"
  by (auto simp: elem_at_def Number_opt_def split: if_splits)

text \<open>An integer repeat field gives an integer repeat count, and the node count is exact.\<close>

lemma repeatCount_of_int:
  assumes "\<not> js_gt (Num (of_int k)) (Num 9000)"
  shows "Math_max (Num 0) (js_sub (Num (of_int k)) (Num 1)) = Num (of_int (max 0 (k - 1)))"
proof (cases "1 \<le> k")
  case True
  from assms have "k \<le> 9000"
    by (simp add: js_gt_def)
  then have "k < 2 ^ 53"
    by simp
  from repeatCount_int [OF True this] True show ?thesis
    by (simp add: max_def)
next
  case False
  then have "(of_int k :: rat) < 1"
    by simp
  from repeatCount_low [OF this] False show ?thesis
    by (simp add: max_def)
qed

lemma trip_count_int_nodes:
  assumes "rc \<in> \<int>" and "0 \<le> rc" and "rc \<le> 14000"
  shows "of_nat (trip_count (js_add (Num rc) (Num 2))) = rc + 2"
proof -
  from assms(1) obtain j where j: "rc = of_int j"
    by (auto elim: Ints_cases)
  with assms(2,3) have "0 \<le> j" "j \<le> 14000"
    by simp_all
  then have "j < 2 ^ 52"
    by simp
  from nodes_int [OF \<open>0 \<le> j\<close> this] \<open>0 \<le> j\<close> show ?thesis
    by (simp add: j)
qed

text \<open>
  For a double \<open>r\<close> from 1 to 9000 the difference \<open>r - 1\<close> is a double, so the
  subtraction of line 319 is exact there; below 1 the result is negative or zero and
  the maximum with 0 is 0.
\<close>

lemma sub_one_exact:
  assumes rd: "round_double r = Num r" and lo: "1 \<le> r" and hi: "r \<le> 9000"
  shows "round_double (r - 1) = Num (r - 1)"
proof -
  define b where "b = binade r"
  from lo have pos: "0 < r" by simp
  from binade_bounds [OF pos] have bl: "2 powi b \<le> r" and bu: "r < 2 powi (b + 1)"
    by (simp_all add: b_def)
  have b0: "0 \<le> b"
  proof (rule ccontr)
    assume "\<not> 0 \<le> b"
    then have "b + 1 \<le> 0" by simp
    then have "(2 :: rat) powi (b + 1) \<le> 2 powi 0"
      by (intro power_int_increasing) simp_all
    with bu lo show False by simp
  qed
  have b13: "b \<le> 13"
  proof (rule ccontr)
    assume "\<not> b \<le> 13"
    then have "14 \<le> b" by simp
    then have "(2 :: rat) powi 14 \<le> 2 powi b"
      by (intro power_int_increasing) simp_all
    with bl hi show False by simp
  qed
  define m where "m = nat (52 - b)"
  from b0 b13 have m: "int m = 52 - b" "m \<le> 1022"
    by (simp_all add: m_def)
  have u: "ulp_of r = 1 / 2 ^ m"
  proof -
    from pos b0 have "ulp_of r = 2 powi (b - 52)"
      by (simp add: ulp_of_def b_def max_def)
    also from m(1) have "b - 52 = - int m" by simp
    also have "(2 :: rat) powi (- int m) = 1 / 2 ^ m"
      by (simp add: power_int_minus field_simps)
    finally show ?thesis .
  qed
  define n where "n = round_half_even (r / ulp_of r)"
  from rd have r: "r = of_int n * ulp_of r"
    unfolding round_double_unfold n_def by (simp split: if_splits)
  then have rn: "r = of_int n / 2 ^ m"
    by (simp add: u)
  then have rn': "r * 2 ^ m = of_int n"
    by simp
  from lo have "1 * 2 ^ m \<le> r * 2 ^ m"
    by (intro mult_right_mono) simp_all
  with rn' have "(of_int (2 ^ m) :: rat) \<le> of_int n"
    by simp
  then have n_lo: "2 ^ m \<le> n"
    by (simp only: of_int_le_iff)
  have "(2 :: rat) powi (b + 1) * 2 ^ m = 2 powi (b + 1) * 2 powi (int m)"
    by simp
  also have "\<dots> = 2 powi (b + 1 + int m)"
    by (rule powi_add)
  also from m(1) have "b + 1 + int m = 53" by simp
  finally have p53: "(2 :: rat) powi (b + 1) * 2 ^ m = 2 powi 53" .
  from bu have "r * 2 ^ m < 2 powi (b + 1) * 2 ^ m"
    by (intro mult_strict_right_mono) simp_all
  with rn' p53 have "(of_int n :: rat) < of_int (2 ^ 53)"
    by simp
  then have n_hi: "n < 2 ^ 53"
    by (simp only: of_int_less_iff)
  define k where "k = n - 2 ^ m"
  have "(0 :: int) < 2 ^ m"
    by simp
  with n_lo n_hi have "0 \<le> k" "k < 2 ^ 53"
    unfolding k_def by linarith+
  then have "\<bar>k\<bar> < 2 ^ 53"
    by simp
  from round_double_dyadic [OF this m(2)]
  have "round_double (of_int k / 2 ^ m) = Num (of_int k / 2 ^ m)" .
  moreover have "of_int k / 2 ^ m = r - 1"
    by (simp add: k_def rn diff_divide_distrib)
  ultimately show ?thesis
    by simp
qed

lemma repeatCount_exact:
  assumes "round_double r = Num r" and "r \<le> 9000"
  shows "Math_max (Num 0) (js_sub (Num r) (Num 1)) = Num (max 0 (r - 1))"
proof (cases "1 \<le> r")
  case True
  from sub_one_exact [OF assms(1) True assms(2)] True show ?thesis
    by (simp add: js_sub_def Math_max_def max_def)
next
  case False
  then have "r < 1" by simp
  from repeatCount_low [OF this] False show ?thesis
    by (simp add: max_def)
qed

subsection \<open>convertSoundType\<close>

text \<open>
  Claim C5. When the bank info has a non-empty file name, the expansion is the single
  descriptor of that file. Otherwise it starts with one \<open>hitnormal\<close> descriptor on
  the normal bank, followed, in the fixed order finish (bit 4), whistle (bit 2), clap
  (bit 8), by one descriptor on the add bank for each bit set in the mask; every one of
  them carries the volume and the custom sample bank of the bank info.
\<close>

theorem convertSoundType_order:
  "(\<forall>f. Filename bankInfo = Some f \<and> f \<noteq> [] \<longrightarrow>
        convertSoundType soundType bankInfo =
          [\<lparr>Filename_s = Some f, Bank = None, Name = None, Volume_s = None,
            CustomSampleBank_s = None\<rparr>]) \<and>
   (Filename bankInfo = None \<or> Filename bankInfo = Some [] \<longrightarrow>
        convertSoundType soundType bankInfo =
          [\<lparr>Filename_s = None, Bank = Normal bankInfo, Name = Some ''hitnormal'',
            Volume_s = Volume bankInfo, CustomSampleBank_s = CustomSampleBank bankInfo\<rparr>]
          @ (if ToInt32 soundType AND 4 \<noteq> 0
             then [\<lparr>Filename_s = None, Bank = Add bankInfo, Name = Some ''hitfinish'',
                    Volume_s = Volume bankInfo,
                    CustomSampleBank_s = CustomSampleBank bankInfo\<rparr>]
             else [])
          @ (if ToInt32 soundType AND 2 \<noteq> 0
             then [\<lparr>Filename_s = None, Bank = Add bankInfo, Name = Some ''hitwhistle'',
                    Volume_s = Volume bankInfo,
                    CustomSampleBank_s = CustomSampleBank bankInfo\<rparr>]
             else [])
          @ (if ToInt32 soundType AND 8 \<noteq> 0
             then [\<lparr>Filename_s = None, Bank = Add bankInfo, Name = Some ''hitclap'',
                    Volume_s = Volume bankInfo,
                    CustomSampleBank_s = CustomSampleBank bankInfo\<rparr>]
             else []))"
  by (auto simp: convertSoundType_def has_filename_def file_sample_def named_sample_def
        Finish_def Whistle_def Clap_def Let_def)

text \<open>The theorem at the mask 14 (all three bits), without and with a file name.\<close>

theorem convertSoundType_order_witness:
  "convertSoundType (Num 14)
     \<lparr>Filename = Some [], Normal = Some ''soft'', Add = Some ''drum'',
      Volume = Some (Num 70), CustomSampleBank = Some (Num 1)\<rparr> =
     [\<lparr>Filename_s = None, Bank = Some ''soft'', Name = Some ''hitnormal'',
       Volume_s = Some (Num 70), CustomSampleBank_s = Some (Num 1)\<rparr>,
      \<lparr>Filename_s = None, Bank = Some ''drum'', Name = Some ''hitfinish'',
       Volume_s = Some (Num 70), CustomSampleBank_s = Some (Num 1)\<rparr>,
      \<lparr>Filename_s = None, Bank = Some ''drum'', Name = Some ''hitwhistle'',
       Volume_s = Some (Num 70), CustomSampleBank_s = Some (Num 1)\<rparr>,
      \<lparr>Filename_s = None, Bank = Some ''drum'', Name = Some ''hitclap'',
       Volume_s = Some (Num 70), CustomSampleBank_s = Some (Num 1)\<rparr>] \<and>
   convertSoundType (Num 14)
     \<lparr>Filename = Some ''a.wav'', Normal = Some ''soft'', Add = Some ''drum'',
      Volume = Some (Num 70), CustomSampleBank = Some (Num 1)\<rparr> =
     [\<lparr>Filename_s = Some ''a.wav'', Bank = None, Name = None, Volume_s = None,
       CustomSampleBank_s = None\<rparr>]"
  using
    convertSoundType_order [where soundType = "Num 14" and bankInfo =
      "\<lparr>Filename = Some [], Normal = Some ''soft'', Add = Some ''drum'',
        Volume = Some (Num 70), CustomSampleBank = Some (Num 1)\<rparr>"]
    convertSoundType_order [where soundType = "Num 14" and bankInfo =
      "\<lparr>Filename = Some ''a.wav'', Normal = Some ''soft'', Add = Some ''drum'',
        Volume = Some (Num 70), CustomSampleBank = Some (Num 1)\<rparr>"]
  by (simp add: truncate_rat_def)

subsection \<open>General and Difficulty lines\<close>

text \<open>
  Claim C10. A line that reaches the General or the Difficulty decoder (the current
  section is one of the two and the line does not start with a bracket) and whose split
  at the colons does not give exactly two parts (the line has no colon, or more than
  one) stores no key: the parser is returned as it was.
\<close>

theorem decoders_ignore_lines_without_one_colon:
  assumes "currentSection parser = ''General'' \<or> currentSection parser = ''Difficulty''"
    and "\<not> first_char_is line CHR ''[''"
    and "count_list line CHR '':'' \<noteq> 1"
  shows "parse parser line = Inr parser"
proof -
  have "length (split_trim CHR '':'' line) \<noteq> 2"
    using assms(3) by (simp add: split_trim_def length_split_js)
  then have "parseGeneral parser line = parser" and "parseDifficulty parser line = parser"
    by (simp_all add: parseGeneral_def parseDifficulty_def)
  with assms(1,2) show ?thesis
    by (auto simp: parse_def parseLine_def)
qed

text \<open>A General line with two colons.\<close>

theorem decoders_ignore_lines_without_one_colon_witness:
  "currentSection (new_OsuParser\<lparr>currentSection := ''General''\<rparr>) = ''General'' \<and>
   \<not> first_char_is ''Title:a:b'' CHR ''['' \<and>
   count_list ''Title:a:b'' CHR '':'' \<noteq> 1 \<and>
   parse (new_OsuParser\<lparr>currentSection := ''General''\<rparr>) ''Title:a:b'' =
     Inr (new_OsuParser\<lparr>currentSection := ''General''\<rparr>)"
  using decoders_ignore_lines_without_one_colon
    [of "new_OsuParser\<lparr>currentSection := ''General''\<rparr>" "''Title:a:b''"]
  by (simp add: first_char_is_def)

subsection \<open>Timing points\<close>

lemma known_bank_lowered:
  "bank \<in> {JNumber (Num 0), JNumber (Num 1), JNumber (Num 2), JNumber (Num 3)} \<Longrightarrow>
     \<exists>name. call_toLowerCase (LegacySampleBank_get bank) = Inr name"
  by (auto simp: LegacySampleBank_get_def LegacySampleBank_number_def call_toLowerCase_def)

lemma parseTimingPoint_Inr:
  assumes "split = split_trim CHR '','' line"
    and "length split \<ge> 2"
    and "parseTimingPoint parser line = Inr parser'"
  shows "\<exists>tp. parser' = parser\<lparr>timingPoints := timingPoints parser @ [tp]\<rparr> \<and>
           (timingChange_of split \<longrightarrow>
              BeatLength tp = Some (Number (trim (split ! 1))) \<and> TimeSignature tp \<noteq> None) \<and>
           (\<not> timingChange_of split \<longrightarrow> BeatLength tp = None \<and> TimeSignature tp = None)"
  using assms
  by (auto simp: parseTimingPoint_def Let_def split: sum.splits if_splits)

text \<open>
  Claim C3. Take a timing-point record with at least two comma fields; \<open>timingChange\<close>
  is true when the record has no field 6, and otherwise exactly when the first
  character of field 6 is \<open>1\<close>. When the sample bank index (field 3, or the
  \<open>SampleSet\<close> of General when the record has fewer than four fields) is the number
  0, 1, 2 or 3, the record emits: the parse succeeds and appends exactly one point,
  whatever field 6 is. Every emitted point, for those and for any other bank index, has
  \<open>BeatLength\<close> (the number read from field 1) and \<open>TimeSignature\<close> when
  \<open>timingChange\<close> is true, and neither of them when it is false.
\<close>

theorem timingPoint_tempo_fields:
  assumes "split = split_trim CHR '','' line"
    and "length split \<ge> 2"
    and "bank = (if length split \<ge> 4 then JNumber (Number (split ! 3))
                 else (case general parser ''SampleSet'' of None \<Rightarrow> JUndefined | Some v \<Rightarrow> v))"
    and "timingChange = (length split < 7 \<or> first_char_is (split ! 6) CHR ''1'')"
  shows "(bank \<in> {JNumber (Num 0), JNumber (Num 1), JNumber (Num 2), JNumber (Num 3)} \<longrightarrow>
            (\<exists>tp. parseTimingPoint parser line =
                     Inr (parser\<lparr>timingPoints := timingPoints parser @ [tp]\<rparr>) \<and>
                  (timingChange \<longrightarrow>
                     BeatLength tp = Some (Number (trim (split ! 1))) \<and>
                     TimeSignature tp \<noteq> None) \<and>
                  (\<not> timingChange \<longrightarrow> BeatLength tp = None \<and> TimeSignature tp = None))) \<and>
         (\<forall>parser'. parseTimingPoint parser line = Inr parser' \<longrightarrow>
            (\<exists>tp. parser' = parser\<lparr>timingPoints := timingPoints parser @ [tp]\<rparr> \<and>
                  (timingChange \<longrightarrow>
                     BeatLength tp = Some (Number (trim (split ! 1))) \<and>
                     TimeSignature tp \<noteq> None) \<and>
                  (\<not> timingChange \<longrightarrow> BeatLength tp = None \<and> TimeSignature tp = None)))"
proof -
  have tc: "timingChange = timingChange_of split"
    using assms(4) by (auto simp: timingChange_of_def)
  have emitted: "\<exists>tp. parser' = parser\<lparr>timingPoints := timingPoints parser @ [tp]\<rparr> \<and>
                  (timingChange \<longrightarrow>
                     BeatLength tp = Some (Number (trim (split ! 1))) \<and>
                     TimeSignature tp \<noteq> None) \<and>
                  (\<not> timingChange \<longrightarrow> BeatLength tp = None \<and> TimeSignature tp = None)"
    if "parseTimingPoint parser line = Inr parser'" for parser'
    using parseTimingPoint_Inr [OF assms(1,2) that] by (simp only: tc)
  have "\<exists>parser'. parseTimingPoint parser line = Inr parser'"
    if "bank \<in> {JNumber (Num 0), JNumber (Num 1), JNumber (Num 2), JNumber (Num 3)}"
  proof -
    from known_bank_lowered [OF that] obtain name where
      "call_toLowerCase (LegacySampleBank_get bank) = Inr name"
      by blast
    with assms(1-3) show ?thesis
      by (auto simp: parseTimingPoint_def Let_def split: if_splits)
  qed
  with emitted show ?thesis
    by (intro conjI impI allI) blast+
qed

text \<open>
  A record of two fields, where \<open>timingChange\<close> is true, and a record whose field 6
  is \<open>0\<close>: both emit, the first point has both fields and the second has neither.
\<close>

theorem timingPoint_tempo_fields_witness:
  "(\<exists>tp. parseTimingPoint new_OsuParser ''100,500'' =
           Inr (new_OsuParser\<lparr>timingPoints := timingPoints new_OsuParser @ [tp]\<rparr>) \<and>
         BeatLength tp = Some (Num 500) \<and> TimeSignature tp \<noteq> None) \<and>
   (\<exists>tp. parseTimingPoint new_OsuParser ''100,-200,4,2,0,70,0,9'' =
           Inr (new_OsuParser\<lparr>timingPoints := timingPoints new_OsuParser @ [tp]\<rparr>) \<and>
         BeatLength tp = None \<and> TimeSignature tp = None)"
proof -
  let ?a = "''100,500''" and ?b = "''100,-200,4,2,0,70,0,9''"
  let ?sa = "split_trim CHR '','' ?a" and ?sb = "split_trim CHR '','' ?b"
  have la: "length ?sa \<ge> 2" and lb: "length ?sb \<ge> 2"
    by code_simp+
  have bank_a: "(if length ?sa \<ge> 4 then JNumber (Number (?sa ! 3))
                 else (case general new_OsuParser ''SampleSet'' of
                         None \<Rightarrow> JUndefined | Some v \<Rightarrow> v)) = JNumber (Num 0)"
    by code_simp
  have bank_b: "(if length ?sb \<ge> 4 then JNumber (Number (?sb ! 3))
                 else (case general new_OsuParser ''SampleSet'' of
                         None \<Rightarrow> JUndefined | Some v \<Rightarrow> v)) = JNumber (Num 2)"
    by code_simp
  have tc_a: "(length ?sa < 7 \<or> first_char_is (?sa ! 6) CHR ''1'') = True"
    and tc_b: "(length ?sb < 7 \<or> first_char_is (?sb ! 6) CHR ''1'') = False"
    by code_simp+
  have beat: "Number (trim (?sa ! 1)) = Num 500"
    by code_simp
  from timingPoint_tempo_fields [OF refl la bank_a [symmetric] tc_a [symmetric]] beat
  have a: "\<exists>tp. parseTimingPoint new_OsuParser ?a =
           Inr (new_OsuParser\<lparr>timingPoints := timingPoints new_OsuParser @ [tp]\<rparr>) \<and>
         BeatLength tp = Some (Num 500) \<and> TimeSignature tp \<noteq> None"
    by simp
  from timingPoint_tempo_fields [OF refl lb bank_b [symmetric] tc_b [symmetric]]
  have b: "\<exists>tp. parseTimingPoint new_OsuParser ?b =
           Inr (new_OsuParser\<lparr>timingPoints := timingPoints new_OsuParser @ [tp]\<rparr>) \<and>
         BeatLength tp = None \<and> TimeSignature tp = None"
    by simp
  from a b show ?thesis ..
qed

subsection \<open>The repeat count of a slider\<close>

text \<open>
  Claim C2 (the repeat-count error is the only failure the parser raises). A slider
  record with the repeat field 1 whose trailing bank token has the bank index 5 ends
  the run with a TypeError, the failed lookup of a bank name; a slider record without
  field 5 ends the run with a TypeError as well, \<open>split[5].split\<close> on \<open>undefined\<close>.
\<close>

theorem other_failure_than_repeat_count:
  "Number_opt (elem_at (split_trim CHR '','' ''0,0,0,2,0,L|1:1,1,100,0,0:0,5:0'') 6) = Num 1 \<and>
   map_sum id hitObjects
     (parse_lines new_OsuParser [''[HitObjects]'', ''0,0,0,2,0,L|1:1,1,100,0,0:0,5:0'']) =
     Inl TypeError \<and>
   map_sum id hitObjects (parse_lines new_OsuParser [''[HitObjects]'', ''0,0,0,2,0'']) =
     Inl TypeError"
  by code_simp

text \<open>
  The repeat count itself is as the specification has it. For a record that reaches the
  slider branch (after the combo bits are cleared, the circle bit is clear and the
  slider bit is set): when the number read from field 6 is above 9000, the decoder
  throws the repeat-count error, and a run over lines stops there with that error. When
  it is not, a record with field 5 and without bank tokens is emitted, and every object
  the record emits has the repeat count \<open>Math.max(0, raw - 1)\<close>: for a double
  \<open>raw\<close> that is \<open>max(0, raw - 1)\<close> exactly, for a field that is no number it
  is NaN, and for \<open>-Infinity\<close> it is 0.
\<close>

lemma slider_repeatCount:
  assumes "split = split_trim CHR '','' line"
    and "shape_bits split AND Circle = 0"
    and "shape_bits split AND Slider \<noteq> 0"
    and "raw = Number_opt (elem_at split 6)"
  shows "(js_gt raw (Num 9000) \<longrightarrow>
            parseHitObjects parser line = Inl RepeatCountTooHigh \<and>
            (currentSection parser = ''HitObjects'' \<and> \<not> first_char_is line CHR ''['' \<longrightarrow>
               parse_lines parser (line # rest) = Inl RepeatCountTooHigh)) \<and>
         (\<not> js_gt raw (Num 9000) \<longrightarrow>
            (5 < length split \<and> length split \<le> 9 \<longrightarrow>
               (\<exists>parser'. parseHitObjects parser line = Inr parser')) \<and>
            (\<forall>parser'. parseHitObjects parser line = Inr parser' \<longrightarrow>
               (\<exists>h. hitObjects parser' = hitObjects parser @ [h] \<and>
                    RepeatCount h = Some (Math_max (Num 0) (js_sub raw (Num 1))) \<and>
                    (\<forall>r. raw = Num r \<and> round_double r = Num r \<longrightarrow>
                       RepeatCount h = Some (Num (max 0 (r - 1)))) \<and>
                    (raw = NaN \<longrightarrow> RepeatCount h = Some NaN) \<and>
                    (raw = NegInfinity \<longrightarrow> RepeatCount h = Some (Num 0)))))"
proof (intro conjI impI allI)
  assume high: "js_gt raw (Num 9000)"
  with assms show err: "parseHitObjects parser line = Inl RepeatCountTooHigh"
    by (simp add: parseHitObjects_slider_too_high)
  assume "currentSection parser = ''HitObjects'' \<and> \<not> first_char_is line CHR ''[''"
  with err show "parse_lines parser (line # rest) = Inl RepeatCountTooHigh"
    by (simp add: parse_HitObjects_line)
next
  assume "\<not> js_gt raw (Num 9000)" and "5 < length split \<and> length split \<le> 9"
  with assms(4) show "\<exists>parser'. parseHitObjects parser line = Inr parser'"
    by (intro parseHitObjects_slider_emits [OF assms(1-3)]) simp_all
next
  fix parser'
  assume low: "\<not> js_gt raw (Num 9000)" and ok: "parseHitObjects parser line = Inr parser'"
  from parseHitObjects_slider_emitted [OF assms(1-3) ok]
  obtain pos cb co b h h' where
    sb: "slider_branch split (Number_opt (elem_at split 4)) pos cb co = Inr (b, h)" and
    h': "hitObjects parser' = hitObjects parser @ [h']" "RepeatCount h' = RepeatCount h"
    by blast
  from slider_branch_Inr [OF sb] assms(4)
  have "RepeatCount h = Some (Math_max (Num 0) (js_sub raw (Num 1)))"
    by (auto simp: repeatCount_of_Inr)
  with h' have rc: "RepeatCount h' = Some (Math_max (Num 0) (js_sub raw (Num 1)))"
    by simp
  have exact: "\<forall>r. raw = Num r \<and> round_double r = Num r \<longrightarrow>
                 RepeatCount h' = Some (Num (max 0 (r - 1)))"
  proof (intro allI impI)
    fix r
    assume r: "raw = Num r \<and> round_double r = Num r"
    with low have "r \<le> 9000"
      by (simp add: js_gt_def)
    with r rc show "RepeatCount h' = Some (Num (max 0 (r - 1)))"
      by (simp add: repeatCount_exact)
  qed
  have nan: "raw = NaN \<longrightarrow> RepeatCount h' = Some NaN"
    and ninf: "raw = NegInfinity \<longrightarrow> RepeatCount h' = Some (Num 0)"
    using rc by (auto simp: js_sub_def Math_max_def)
  from h'(1) rc exact nan ninf
  show "\<exists>h. hitObjects parser' = hitObjects parser @ [h] \<and>
           RepeatCount h = Some (Math_max (Num 0) (js_sub raw (Num 1))) \<and>
           (\<forall>r. raw = Num r \<and> round_double r = Num r \<longrightarrow>
              RepeatCount h = Some (Num (max 0 (r - 1)))) \<and>
           (raw = NaN \<longrightarrow> RepeatCount h = Some NaN) \<and>
           (raw = NegInfinity \<longrightarrow> RepeatCount h = Some (Num 0))"
    by blast
qed

text \<open>
  The repeat field is read as a double: \<open>9000.0000000000000001\<close> is the double 9000,
  which is not above 9000, and the repeat count is 8999; \<open>9001\<close> throws.
\<close>

lemma repeat_field_is_a_double:
  "Number ''9000.0000000000000001'' = Num 9000 \<and>
   repeatCount_of (split_trim CHR '','' ''0,0,0,2,0,L|1:1,9000.0000000000000001,100'') =
     Inr (Num 8999) \<and>
   map_sum id hitObjects (parseHitObjects new_OsuParser ''0,0,0,2,0,L|1:1,9001,100'') =
     Inl RepeatCountTooHigh"
  by code_simp

subsection \<open>The node samples of a slider\<close>

text \<open>
  Claim C4, as the code has it, in double arithmetic. Take a slider record whose field
  6 reads as a number \<open>raw\<close> (not NaN). When the record has no bank tokens (at most
  nine fields) and \<open>raw\<close> is not above 9000, it is emitted. Whenever it is emitted,
  the object has the repeat count \<open>rc = Math.max(0, raw - 1)\<close>, a finite number; the
  sum \<open>rc + 2\<close> is a finite double \<open>nodes\<close>, and \<open>NodeSamples\<close> has as many
  elements as the loops have iterations, \<open>nodes\<close> rounded up; that is \<open>rc + 2\<close>
  whenever the repeat count is an integer, as it is for an integer repeat field \<open>k\<close>,
  where it is \<open>max(0, k - 1)\<close>. \<open>NodeSamples\<close> is not empty and \<open>Samples\<close> is
  its last element.
\<close>

theorem slider_nodeSamples:
  assumes "split = split_trim CHR '','' line"
    and "shape_bits split AND Circle = 0"
    and "shape_bits split AND Slider \<noteq> 0"
    and "raw = Number_opt (elem_at split 6)"
    and "raw \<noteq> NaN"
  shows "(length split \<le> 9 \<and> \<not> js_gt raw (Num 9000) \<longrightarrow>
            (\<exists>parser'. parseHitObjects parser line = Inr parser')) \<and>
         (\<forall>parser'. parseHitObjects parser line = Inr parser' \<longrightarrow>
            (\<exists>h rc nodes ns.
               hitObjects parser' = hitObjects parser @ [h] \<and>
               Math_max (Num 0) (js_sub raw (Num 1)) = Num rc \<and>
               RepeatCount h = Some (Num rc) \<and>
               js_add (Num rc) (Num 2) = Num nodes \<and>
               NodeSamples h = Some ns \<and> int (length ns) = \<lceil>nodes\<rceil> \<and>
               (rc \<in> \<int> \<longrightarrow> of_nat (length ns) = rc + 2) \<and>
               (\<forall>k. raw = Num (of_int k) \<longrightarrow> rc = of_int (max 0 (k - 1))) \<and>
               ns \<noteq> [] \<and> Samples h = Some (last ns)))"
proof (intro conjI impI allI)
  assume "length split \<le> 9 \<and> \<not> js_gt raw (Num 9000)"
  with assms(4,5) field6_present [of split]
  show "\<exists>parser'. parseHitObjects parser line = Inr parser'"
    by (intro parseHitObjects_slider_emits [OF assms(1-3)]) simp_all
next
  fix parser'
  assume ok: "parseHitObjects parser line = Inr parser'"
  from parseHitObjects_slider_emitted [OF assms(1-3) ok]
  obtain pos cb co b h0 h where
    sb: "slider_branch split (Number_opt (elem_at split 4)) pos cb co = Inr (b, h0)" and
    h: "hitObjects parser' = hitObjects parser @ [h]" "RepeatCount h = RepeatCount h0"
       "NodeSamples h = NodeSamples h0"
       "Samples h = (if Samples h0 = None
                     then Some (convertSoundType (Number_opt (elem_at split 4)) b)
                     else Samples h0)"
    by blast
  from slider_branch_Inr [OF sb] obtain rc0 ns where
    rc0: "repeatCount_of split = Inr rc0" and
    ns: "nodeSamples_of split rc0 (Number_opt (elem_at split 4)) b = Inr ns" and
    h0: "RepeatCount h0 = Some rc0" "NodeSamples h0 = Some ns"
        "Samples h0 = last_nodeSamples ns"
    by blast
  from rc0 assms(4) have low: "\<not> js_gt raw (Num 9000)"
    and rc0_eq: "rc0 = Math_max (Num 0) (js_sub raw (Num 1))"
    by (simp_all add: repeatCount_of_Inr)
  from repeatCount_cases [OF low] assms(5) obtain rc where
    rc: "Math_max (Num 0) (js_sub raw (Num 1)) = Num rc" "0 \<le> rc" "rc \<le> 14000"
    by blast
  from nodes_positive [OF rc(2,3)] obtain nodes where
    nodes: "js_add (Num rc) (Num 2) = Num nodes" "0 < nodes"
    by blast
  from nodeSamples_of_length [OF ns] rc0_eq rc(1)
  have len0: "length ns = trip_count (js_add (Num rc) (Num 2))"
    by simp
  with nodes(1) have len: "length ns = nat \<lceil>nodes\<rceil>"
    by simp
  from nodes(2) have pos: "0 < \<lceil>nodes\<rceil>"
    by (simp add: less_ceiling_iff)
  with len have len_int: "int (length ns) = \<lceil>nodes\<rceil>"
    by simp
  from pos len have ne: "ns \<noteq> []"
    by auto
  from last_nodeSamples_last [OF ne] h0(3) h(4) have last: "Samples h = Some (last ns)"
    by simp
  have int: "rc \<in> \<int> \<longrightarrow> of_nat (length ns) = rc + 2"
  proof
    assume "rc \<in> \<int>"
    from trip_count_int_nodes [OF this rc(2,3)] show "of_nat (length ns) = rc + 2"
      by (simp only: len0)
  qed
  have field: "\<forall>k. raw = Num (of_int k) \<longrightarrow> rc = of_int (max 0 (k - 1))"
  proof (intro allI impI)
    fix k
    assume k: "raw = Num (of_int k)"
    with low have "\<not> js_gt (Num (of_int k)) (Num 9000)"
      by simp
    from repeatCount_of_int [OF this] rc(1) k show "rc = of_int (max 0 (k - 1))"
      by simp
  qed
  from h(2) h0(1) rc0_eq rc(1) have rep: "RepeatCount h = Some (Num rc)"
    by simp
  from h(3) h0(2) have nds: "NodeSamples h = Some ns"
    by simp
  from h(1) rc(1) rep nodes(1) nds len_int int field ne last
  show "\<exists>h rc nodes ns.
               hitObjects parser' = hitObjects parser @ [h] \<and>
               Math_max (Num 0) (js_sub raw (Num 1)) = Num rc \<and>
               RepeatCount h = Some (Num rc) \<and>
               js_add (Num rc) (Num 2) = Num nodes \<and>
               NodeSamples h = Some ns \<and> int (length ns) = \<lceil>nodes\<rceil> \<and>
               (rc \<in> \<int> \<longrightarrow> of_nat (length ns) = rc + 2) \<and>
               (\<forall>k. raw = Num (of_int k) \<longrightarrow> rc = of_int (max 0 (k - 1))) \<and>
               ns \<noteq> [] \<and> Samples h = Some (last ns)"
    by blast
qed

text \<open>
  Against claim C4 as stated: the repeat field 2.5 gives the repeat count 1.5 and four
  node sample lists, not 3.5.
\<close>

theorem fractional_repeat_nodeSamples:
  "map_sum id (map RepeatCount \<circ> hitObjects)
     (parseHitObjects new_OsuParser ''0,0,0,2,0,L|1:1,2.5,100'') = Inr [Some (Num (3 / 2))] \<and>
   map_sum id (map (map_option length \<circ> NodeSamples) \<circ> hitObjects)
     (parseHitObjects new_OsuParser ''0,0,0,2,0,L|1:1,2.5,100'') = Inr [Some 4]"
  by code_simp

text \<open>
  The sum \<open>rc + 2\<close> is a double: the repeat field \<open>1.0000000000000002\<close> gives the
  repeat count \<open>2\<^sup>-\<^sup>5\<^sup>2\<close>, the sum 2 and two node sample lists.
\<close>

lemma node_count_is_rounded:
  "map_sum id (map RepeatCount \<circ> hitObjects)
     (parseHitObjects new_OsuParser ''0,0,0,2,0,L|1:1,1.0000000000000002,100'') =
     Inr [Some (Num (1 / 2 ^ 52))] \<and>
   js_add (Num (1 / 2 ^ 52)) (Num 2) = Num 2 \<and>
   map_sum id (map (map_option length \<circ> NodeSamples) \<circ> hitObjects)
     (parseHitObjects new_OsuParser ''0,0,0,2,0,L|1:1,1.0000000000000002,100'') = Inr [Some 2]"
  by code_simp

text \<open>The theorem at the repeat field 3: emitted, the repeat count 2 and four nodes.\<close>

theorem slider_nodeSamples_witness:
  "\<exists>parser' h ns.
      parseHitObjects new_OsuParser ''0,0,0,2,0,L|1:1,3,100'' = Inr parser' \<and>
      hitObjects parser' = hitObjects new_OsuParser @ [h] \<and>
      RepeatCount h = Some (Num 2) \<and> NodeSamples h = Some ns \<and> length ns = 4 \<and>
      Samples h = Some (last ns)"
proof -
  let ?lo = "''0,0,0,2,0,L|1:1,3,100''"
  have c2: "shape_bits (split_trim CHR '','' ?lo) AND Circle = 0"
    and s2: "shape_bits (split_trim CHR '','' ?lo) AND Slider \<noteq> 0"
    and r2: "Number_opt (elem_at (split_trim CHR '','' ?lo) 6) = Num 3"
    and l2: "length (split_trim CHR '','' ?lo) \<le> 9"
    by code_simp+
  have n2: "Num 3 \<noteq> NaN" and g2: "\<not> js_gt (Num 3) (Num 9000)"
    by (simp_all add: js_gt_def)
  note inst = slider_nodeSamples [OF refl c2 s2 r2 [symmetric] n2, of new_OsuParser]
  from inst l2 g2 obtain parser' where ok: "parseHitObjects new_OsuParser ?lo = Inr parser'"
    by blast
  with inst obtain h rc ns where
    h: "hitObjects parser' = hitObjects new_OsuParser @ [h]"
      "RepeatCount h = Some (Num rc)" "NodeSamples h = Some ns"
      "rc \<in> \<int> \<longrightarrow> of_nat (length ns) = rc + 2"
      "\<forall>k. Num 3 = Num (of_int k) \<longrightarrow> rc = of_int (max 0 (k - 1))"
      "Samples h = Some (last ns)"
    by blast
  from h(5) [rule_format, of 3] have rc: "rc = 2"
    by simp
  with h(4) have "(of_nat (length ns) :: rat) = of_nat 4"
    by simp
  then have "length ns = 4"
    by (simp only: of_nat_eq_iff)
  with ok h(1,2,3,6) rc show ?thesis
    by blast
qed

subsection \<open>The bank infos of the nodes\<close>

text \<open>
  Claim C7, as the code has it. An emitted slider has one bank info per node, as many
  as the loops have iterations, and its node samples are the expansions of these bank
  infos. Where field 9 has a token for a node, the node's bank info is that token
  decoded on its own, except that a custom sample bank or a volume the token has no field
  for is the one of the object-level default (the token is decoded onto a copy of the
  default, which keeps the properties the token does not set). A node without a token
  has the default itself.
\<close>

theorem node_bank_overlay:
  assumes "split = split_trim CHR '','' line"
    and "shape_bits split AND Circle = 0"
    and "shape_bits split AND Slider \<noteq> 0"
    and "parseHitObjects parser line = Inr parser'"
  shows "\<exists>h rc b infos.
           hitObjects parser' = hitObjects parser @ [h] \<and>
           repeatCount_of split = Inr rc \<and> RepeatCount h = Some rc \<and>
           slider_bankInfo split = Inr b \<and>
           length infos = trip_count (js_add rc (Num 2)) \<and>
           NodeSamples h =
             Some (map (\<lambda>i. convertSoundType
                          (nodeSoundTypes_of split (length infos)
                             (Number_opt (elem_at split 4)) ! i)
                          (infos ! i))
                     [0..<length infos]) \<and>
           (\<forall>i < length infos.
              if length split > 9 \<and> split ! 9 \<noteq> [] \<and>
                 i < length (split_trim CHR ''|'' (split ! 9))
              then \<exists>e. readCustomSampleBanks (split_trim CHR ''|'' (split ! 9) ! i)
                          empty_bankInfo = Inr e \<and>
                        infos ! i =
                          token_over_default (split_trim CHR ''|'' (split ! 9) ! i) b e
              else infos ! i = b)"
proof -
  let ?st = "Number_opt (elem_at split 4)"
  from parseHitObjects_slider_emitted [OF assms]
  obtain pos cb co b h0 h where
    sb: "slider_branch split ?st pos cb co = Inr (b, h0)" and
    h: "hitObjects parser' = hitObjects parser @ [h]" "RepeatCount h = RepeatCount h0"
       "NodeSamples h = NodeSamples h0"
    by blast
  from slider_branch_Inr [OF sb] obtain rc ns where
    rc: "repeatCount_of split = Inr rc" and
    b: "slider_bankInfo split = Inr b" and
    ns: "nodeSamples_of split rc ?st b = Inr ns" and
    h0: "RepeatCount h0 = Some rc" "NodeSamples h0 = Some ns"
    by blast
  let ?n = "trip_count (js_add rc (Num 2))"
  from nodeSamples_of_Inr [OF ns] obtain infos where
    infos: "nodeBankInfos_of split ?n b = Inr infos" and
    ns_eq: "ns = map (\<lambda>i. convertSoundType (nodeSoundTypes_of split ?n ?st ! i) (infos ! i))
                   [0..<?n]"
    by blast
  from nodeBankInfos_of_result [OF infos] have len: "length infos = ?n"
    and each: "\<And>i. i < ?n \<Longrightarrow>
        (if length split > 9 \<and> split ! 9 \<noteq> [] \<and> i < length (split_trim CHR ''|'' (split ! 9))
         then readCustomSampleBanks (split_trim CHR ''|'' (split ! 9) ! i) b = Inr (infos ! i)
         else infos ! i = b)"
    by auto
  have overlay: "\<forall>i < length infos.
      if length split > 9 \<and> split ! 9 \<noteq> [] \<and> i < length (split_trim CHR ''|'' (split ! 9))
      then \<exists>e. readCustomSampleBanks (split_trim CHR ''|'' (split ! 9) ! i) empty_bankInfo = Inr e \<and>
                infos ! i = token_over_default (split_trim CHR ''|'' (split ! 9) ! i) b e
      else infos ! i = b"
  proof (intro allI impI)
    fix i assume "i < length infos"
    with len have i: "i < ?n" by simp
    show "if length split > 9 \<and> split ! 9 \<noteq> [] \<and> i < length (split_trim CHR ''|'' (split ! 9))
      then \<exists>e. readCustomSampleBanks (split_trim CHR ''|'' (split ! 9) ! i) empty_bankInfo = Inr e \<and>
                infos ! i = token_over_default (split_trim CHR ''|'' (split ! 9) ! i) b e
      else infos ! i = b"
    proof (cases "length split > 9 \<and> split ! 9 \<noteq> [] \<and>
                  i < length (split_trim CHR ''|'' (split ! 9))")
      case True
      with each [OF i]
      have "readCustomSampleBanks (split_trim CHR ''|'' (split ! 9) ! i) b = Inr (infos ! i)"
        by simp
      from readCustomSampleBanks_over_default [OF this] True show ?thesis
        by auto
    next
      case False
      with each [OF i] show ?thesis
        by auto
    qed
  qed
  from h(3) h0(2) ns_eq len have nodes: "NodeSamples h =
      Some (map (\<lambda>i. convertSoundType (nodeSoundTypes_of split (length infos) ?st ! i) (infos ! i))
              [0..<length infos])"
    by simp
  from h(2) h0(1) have rep: "RepeatCount h = Some rc"
    by simp
  from h(1) rc rep b len nodes overlay show ?thesis
    by blast
qed

text \<open>
  Against claim C7 as stated: with the default \<open>0:0:5:70:\<close> and the node token
  \<open>1:2\<close>, the token alone decodes to a bank info without volume and custom sample
  bank, but the first node's bank info has the volume 70 and the custom sample bank 5 of
  the default, and so have its samples.
\<close>

theorem node_token_keeps_default_volume:
  "readCustomSampleBanks ''1:2'' empty_bankInfo =
     Inr \<lparr>Filename = None, Normal = Some ''normal'', Add = Some ''soft'', Volume = None,
          CustomSampleBank = None\<rparr> \<and>
   slider_bankInfo (split_trim CHR '','' ''0,0,0,2,0,L|1:1,1,100,0,1:2,0:0:5:70:'') =
     Inr \<lparr>Filename = Some [], Normal = None, Add = None, Volume = Some (Num 70),
          CustomSampleBank = Some (Num 5)\<rparr> \<and>
   nodeBankInfos_of (split_trim CHR '','' ''0,0,0,2,0,L|1:1,1,100,0,1:2,0:0:5:70:'') 2
     \<lparr>Filename = Some [], Normal = None, Add = None, Volume = Some (Num 70),
      CustomSampleBank = Some (Num 5)\<rparr> =
     Inr [\<lparr>Filename = None, Normal = Some ''normal'', Add = Some ''soft'',
           Volume = Some (Num 70), CustomSampleBank = Some (Num 5)\<rparr>,
          \<lparr>Filename = Some [], Normal = None, Add = None, Volume = Some (Num 70),
           CustomSampleBank = Some (Num 5)\<rparr>] \<and>
   map_sum id (map NodeSamples \<circ> hitObjects)
     (parseHitObjects new_OsuParser ''0,0,0,2,0,L|1:1,1,100,0,1:2,0:0:5:70:'') =
     Inr [Some [[\<lparr>Filename_s = None, Bank = Some ''normal'', Name = Some ''hitnormal'',
                  Volume_s = Some (Num 70), CustomSampleBank_s = Some (Num 5)\<rparr>],
                [\<lparr>Filename_s = None, Bank = None, Name = Some ''hitnormal'',
                  Volume_s = Some (Num 70), CustomSampleBank_s = Some (Num 5)\<rparr>]]]"
  by code_simp

text \<open>The theorem on the same record: two nodes, the first with a token.\<close>

theorem node_bank_overlay_witness:
  "shape_bits (split_trim CHR '','' ''0,0,0,2,0,L|1:1,1,100,0,1:2,0:0:5:70:'') AND Circle = 0 \<and>
   shape_bits (split_trim CHR '','' ''0,0,0,2,0,L|1:1,1,100,0,1:2,0:0:5:70:'') AND Slider \<noteq> 0 \<and>
   (\<exists>parser' h b infos.
      parseHitObjects new_OsuParser ''0,0,0,2,0,L|1:1,1,100,0,1:2,0:0:5:70:'' = Inr parser' \<and>
      hitObjects parser' = hitObjects new_OsuParser @ [h] \<and>
      RepeatCount h = Some (Num 0) \<and>
      b = \<lparr>Filename = Some [], Normal = None, Add = None, Volume = Some (Num 70),
           CustomSampleBank = Some (Num 5)\<rparr> \<and>
      length infos = 2 \<and>
      infos ! 0 = \<lparr>Filename = None, Normal = Some ''normal'', Add = Some ''soft'',
                   Volume = Some (Num 70), CustomSampleBank = Some (Num 5)\<rparr> \<and>
      infos ! 1 = b)"
proof -
  let ?line = "''0,0,0,2,0,L|1:1,1,100,0,1:2,0:0:5:70:''"
  let ?split = "split_trim CHR '','' ?line"
  let ?b = "\<lparr>Filename = Some [], Normal = None, Add = None, Volume = Some (Num 70),
             CustomSampleBank = Some (Num 5)\<rparr>"
  let ?e = "\<lparr>Filename = None, Normal = Some ''normal'', Add = Some ''soft'', Volume = None,
             CustomSampleBank = None\<rparr>"
  have c: "shape_bits ?split AND Circle = 0" and s: "shape_bits ?split AND Slider \<noteq> 0"
    by code_simp+
  have "\<not> isl (parseHitObjects new_OsuParser ?line)"
    by code_simp
  then obtain parser' where ok: "parseHitObjects new_OsuParser ?line = Inr parser'"
    by (cases "parseHitObjects new_OsuParser ?line") auto
  have rc0: "repeatCount_of ?split = Inr (Num 0)"
    and b0: "slider_bankInfo ?split = Inr ?b"
    and two: "trip_count (js_add (Num 0) (Num 2)) = 2"
    by code_simp+
  have tok0: "length ?split > 9 \<and> ?split ! 9 \<noteq> [] \<and> 0 < length (split_trim CHR ''|'' (?split ! 9))"
    and tok0_is: "split_trim CHR ''|'' (?split ! 9) ! 0 = ''1:2''"
    and tok1: "\<not> (1 < length (split_trim CHR ''|'' (?split ! 9)))"
    by code_simp+
  have e0: "readCustomSampleBanks ''1:2'' empty_bankInfo = Inr ?e"
    and over: "token_over_default ''1:2'' ?b ?e =
                 \<lparr>Filename = None, Normal = Some ''normal'', Add = Some ''soft'',
                  Volume = Some (Num 70), CustomSampleBank = Some (Num 5)\<rparr>"
    by code_simp+
  from node_bank_overlay [OF refl c s ok] obtain h rc b infos where
    h: "hitObjects parser' = hitObjects new_OsuParser @ [h]" and
    rc: "repeatCount_of ?split = Inr rc" "RepeatCount h = Some rc" and
    b: "slider_bankInfo ?split = Inr b" and
    len: "length infos = trip_count (js_add rc (Num 2))" and
    each: "\<forall>i < length infos.
             if length ?split > 9 \<and> ?split ! 9 \<noteq> [] \<and>
                i < length (split_trim CHR ''|'' (?split ! 9))
             then \<exists>e. readCustomSampleBanks (split_trim CHR ''|'' (?split ! 9) ! i)
                         empty_bankInfo = Inr e \<and>
                       infos ! i = token_over_default (split_trim CHR ''|'' (?split ! 9) ! i) b e
             else infos ! i = b"
    by blast
  from rc rc0 have rc_eq: "rc = Num 0" by simp
  from b b0 have b_eq: "b = ?b" by simp
  from len rc_eq two have len2: "length infos = 2" by simp
  from each len2 tok0 have "\<exists>e. readCustomSampleBanks (split_trim CHR ''|'' (?split ! 9) ! 0)
                         empty_bankInfo = Inr e \<and>
                       infos ! 0 = token_over_default (split_trim CHR ''|'' (?split ! 9) ! 0) b e"
    by (metis zero_less_numeral)
  with tok0_is e0 over b_eq have i0: "infos ! 0 =
      \<lparr>Filename = None, Normal = Some ''normal'', Add = Some ''soft'',
       Volume = Some (Num 70), CustomSampleBank = Some (Num 5)\<rparr>"
    by auto
  from each len2 tok1 have i1: "infos ! 1 = b"
    by (metis one_less_numeral_iff semiring_norm(76))
  from c s ok h rc(2) rc_eq b_eq len2 i0 i1 show ?thesis
    by blast
qed

subsection \<open>The section router\<close>

text \<open>
  Claim C8, as the code has it. A line whose first character is the opening bracket
  never reaches a decoder: the parse succeeds and the document is unchanged. An
  occurrence of a token in a line is an opening bracket, a non-empty run of letters,
  digits and underscores, and a closing bracket (\<open>bracket_token_at\<close>, which says where
  it starts); the current section becomes the token of the leftmost occurrence,
  wherever in the line it is, and stays what it was when the line has no occurrence.
  So a line that is an opening bracket, such a run, a closing bracket and anything
  after it selects the run. A line with another first character goes to the decoder
  of the current section when that is General, Difficulty, TimingPoints or HitObjects,
  and leaves the parser unchanged when the section is none of the four and no member
  name of \<open>Object.prototype\<close> (as is the initial empty section).
\<close>

theorem router_transitions:
  "(first_char_is line CHR ''['' \<longrightarrow>
      (\<exists>parser'. parse parser line = Inr parser' \<and>
         (\<forall>i token. bracket_token_at line i token \<and>
                     (\<forall>j<i. \<forall>t. \<not> bracket_token_at line j t) \<longrightarrow>
                     currentSection parser' = token) \<and>
         ((\<forall>i t. \<not> bracket_token_at line i t) \<longrightarrow>
            currentSection parser' = currentSection parser) \<and>
         general parser' = general parser \<and> difficulty parser' = difficulty parser \<and>
         timingPoints parser' = timingPoints parser \<and>
         hitObjects parser' = hitObjects parser)) \<and>
   (token \<noteq> [] \<and> list_all is_word_char token \<longrightarrow>
      (\<exists>parser'. parse parser (CHR ''['' # token @ CHR '']'' # rest) = Inr parser' \<and>
         currentSection parser' = token)) \<and>
   (\<not> first_char_is line CHR ''['' \<longrightarrow>
      (currentSection parser = ''General'' \<longrightarrow>
         parse parser line = Inr (parseGeneral parser line)) \<and>
      (currentSection parser = ''Difficulty'' \<longrightarrow>
         parse parser line = Inr (parseDifficulty parser line)) \<and>
      (currentSection parser = ''TimingPoints'' \<longrightarrow>
         parse parser line = parseTimingPoint parser line) \<and>
      (currentSection parser = ''HitObjects'' \<longrightarrow>
         parse parser line = parseHitObjects parser line) \<and>
      (currentSection parser \<notin> {''General'', ''Difficulty'', ''TimingPoints'', ''HitObjects''} \<and>
       currentSection parser \<notin> set Object_prototype_names \<longrightarrow>
         parse parser line = Inr parser))"
proof (intro conjI impI)
  assume "first_char_is line CHR ''[''"
  then have p: "parse parser line = Inr (parseSection parser line)"
    by (simp add: parse_def)
  have "(\<forall>i token. bracket_token_at line i token \<and>
                     (\<forall>j<i. \<forall>t. \<not> bracket_token_at line j t) \<longrightarrow>
                     currentSection (parseSection parser line) = token)"
    by (auto intro: parseSection_leftmost)
  moreover have "(\<forall>i t. \<not> bracket_token_at line i t) \<longrightarrow>
            currentSection (parseSection parser line) = currentSection parser"
    by (auto simp: parseSection_no_token)
  ultimately show "\<exists>parser'. parse parser line = Inr parser' \<and>
         (\<forall>i token. bracket_token_at line i token \<and>
                     (\<forall>j<i. \<forall>t. \<not> bracket_token_at line j t) \<longrightarrow>
                     currentSection parser' = token) \<and>
         ((\<forall>i t. \<not> bracket_token_at line i t) \<longrightarrow>
            currentSection parser' = currentSection parser) \<and>
         general parser' = general parser \<and> difficulty parser' = difficulty parser \<and>
         timingPoints parser' = timingPoints parser \<and>
         hitObjects parser' = hitObjects parser"
    using parseSection_document [of parser line] unfolding p
    by (intro exI [of _ "parseSection parser line"]) simp
next
  assume "token \<noteq> [] \<and> list_all is_word_char token"
  then have "regexp_exec (CHR ''['' # token @ CHR '']'' # rest) = Some token"
    by (elim conjE) (rule regexp_exec_header)
  then show "\<exists>parser'. parse parser (CHR ''['' # token @ CHR '']'' # rest) = Inr parser' \<and>
         currentSection parser' = token"
    by (simp add: parse_def parseSection_def first_char_is_def)
qed (auto simp: parse_def parseLine_def)

text \<open>
  Against claim C8 as stated. In section TimingPoints the line \<open>[1,2\<close> starts with a
  bracket and matches no \<open>[token]\<close>: it is not forwarded and no point is emitted (with
  a leading blank the decoder gets it and emits a point). After the header
  \<open>[__proto__]\<close>, a section without a decoder, the next line ends the run with a
  TypeError: the lookup in \<open>parsers\<close> finds the prototype object, which is no function.
\<close>

theorem bracket_lines_are_not_forwarded:
  "map_sum id timingPoints (parse_lines new_OsuParser [''[TimingPoints]'', ''[1,2'']) = Inr [] \<and>
   map_sum id (map BeatLength \<circ> timingPoints)
     (parse_lines new_OsuParser [''[TimingPoints]'', '' [1,2'']) = Inr [Some (Num 2)] \<and>
   map_sum id timingPoints (parse_lines new_OsuParser [''[__proto__]'', ''1,2'']) =
     Inl TypeError"
  by code_simp

text \<open>
  The theorem at a header line, at a line whose token is not at its start, at a
  bracket line without a token, and at a content line in three sections.
\<close>

theorem router_transitions_witness:
  "(\<exists>parser'. parse new_OsuParser ''[General]'' = Inr parser' \<and>
      currentSection parser' = ''General'' \<and>
      general parser' = general new_OsuParser \<and>
      difficulty parser' = difficulty new_OsuParser \<and>
      timingPoints parser' = timingPoints new_OsuParser \<and>
      hitObjects parser' = hitObjects new_OsuParser) \<and>
   (\<exists>parser'. parse (new_OsuParser\<lparr>currentSection := ''General''\<rparr>) ''[x[Events]'' =
                Inr parser' \<and>
      currentSection parser' = ''Events'') \<and>
   (\<exists>parser'. parse (new_OsuParser\<lparr>currentSection := ''TimingPoints''\<rparr>) ''[1,2'' =
                Inr parser' \<and>
      currentSection parser' = ''TimingPoints'') \<and>
   (\<exists>parser'. parse new_OsuParser ''[Difficulty] // x'' = Inr parser' \<and>
      currentSection parser' = ''Difficulty'') \<and>
   \<not> first_char_is ''Mode: 1'' CHR ''['' \<and>
   parse (new_OsuParser\<lparr>currentSection := ''General''\<rparr>) ''Mode: 1'' =
     Inr (parseGeneral (new_OsuParser\<lparr>currentSection := ''General''\<rparr>) ''Mode: 1'') \<and>
   parse (new_OsuParser\<lparr>currentSection := ''HitObjects''\<rparr>) ''Mode: 1'' =
     parseHitObjects (new_OsuParser\<lparr>currentSection := ''HitObjects''\<rparr>) ''Mode: 1'' \<and>
   parse new_OsuParser ''Mode: 1'' = Inr new_OsuParser"
proof -
  let ?g = "new_OsuParser\<lparr>currentSection := ''General''\<rparr>"
  let ?t = "new_OsuParser\<lparr>currentSection := ''TimingPoints''\<rparr>"
  let ?h = "new_OsuParser\<lparr>currentSection := ''HitObjects''\<rparr>"
  have br: "first_char_is ''[General]'' CHR ''[''" "first_char_is ''[x[Events]'' CHR ''[''"
    "first_char_is ''[1,2'' CHR ''[''"
    and nb: "\<not> first_char_is ''Mode: 1'' CHR ''[''"
    by (simp_all add: first_char_is_def)
  have at_g: "bracket_token_at ''[General]'' 0 ''General''"
    and at_e: "bracket_token_at ''[x[Events]'' 2 ''Events''"
    by (simp_all add: bracket_token_at_def is_word_char_def)
  have left_e: "\<forall>j<2. \<forall>t. \<not> bracket_token_at ''[x[Events]'' j t"
  proof (intro allI impI)
    fix j :: nat and t
    assume "j < 2"
    then consider "j = 0" | "j = Suc 0"
      by linarith
    then show "\<not> bracket_token_at ''[x[Events]'' j t"
    proof cases
      case 1
      have "match_token ''x[Events]'' = None"
        by (simp add: match_token_def is_word_char_def first_char_is_def)
      with 1 show ?thesis
        by (simp add: bracket_token_at_0)
    next
      case 2
      then show ?thesis
        by (simp add: bracket_token_at_Suc bracket_token_at_0)
    qed
  qed
  have "regexp_exec ''[1,2'' = None"
    by (simp add: match_token_def is_word_char_def first_char_is_def)
  from regexp_exec_None [OF this]
  have none: "\<forall>i t. \<not> bracket_token_at ''[1,2'' i t"
    by blast
  have tok: "''Difficulty'' \<noteq> [] \<and> list_all is_word_char ''Difficulty''"
    by (simp add: is_word_char_def)
  have hdr: "''[Difficulty] // x'' = CHR ''['' # ''Difficulty'' @ CHR '']'' # '' // x''"
    by simp
  have sec: "currentSection new_OsuParser = []"
    by (simp add: new_OsuParser_def)
  have unreg: "currentSection new_OsuParser \<notin>
                 {''General'', ''Difficulty'', ''TimingPoints'', ''HitObjects''} \<and>
               currentSection new_OsuParser \<notin> set Object_prototype_names"
    by (simp add: sec Object_prototype_names_def)
  from router_transitions
         [where line = "''[General]''" and parser = new_OsuParser and token = "''General''"
            and rest = "[]"] br(1) at_g
  have hd: "\<exists>parser'. parse new_OsuParser ''[General]'' = Inr parser' \<and>
      currentSection parser' = ''General'' \<and>
      general parser' = general new_OsuParser \<and>
      difficulty parser' = difficulty new_OsuParser \<and>
      timingPoints parser' = timingPoints new_OsuParser \<and>
      hitObjects parser' = hitObjects new_OsuParser"
    by (metis not_less_zero)
  from router_transitions
         [where line = "''[x[Events]''" and parser = ?g and token = "''General''"
            and rest = "[]"] br(2) at_e left_e
  have ev: "\<exists>parser'. parse ?g ''[x[Events]'' = Inr parser' \<and>
      currentSection parser' = ''Events''"
    by blast
  from router_transitions
         [where line = "''[1,2''" and parser = ?t and token = "''General''"
            and rest = "[]"] br(3) none
  have st: "\<exists>parser'. parse ?t ''[1,2'' = Inr parser' \<and>
      currentSection parser' = ''TimingPoints''"
    by auto
  from router_transitions
         [where line = "''Mode: 1''" and parser = new_OsuParser and token = "''Difficulty''"
            and rest = "'' // x''"] tok
  have df: "\<exists>parser'. parse new_OsuParser ''[Difficulty] // x'' = Inr parser' \<and>
      currentSection parser' = ''Difficulty''"
    by (simp only: hdr) blast
  from router_transitions
         [where line = "''Mode: 1''" and parser = ?g and token = "''General''" and rest = "[]"]
       nb
  have g: "parse ?g ''Mode: 1'' = Inr (parseGeneral ?g ''Mode: 1'')"
    by simp
  from router_transitions
         [where line = "''Mode: 1''" and parser = ?h and token = "''General''" and rest = "[]"]
       nb
  have ho: "parse ?h ''Mode: 1'' = parseHitObjects ?h ''Mode: 1''"
    by simp
  from router_transitions
         [where line = "''Mode: 1''" and parser = new_OsuParser and token = "''General''"
            and rest = "[]"] nb unreg
  have un: "parse new_OsuParser ''Mode: 1'' = Inr new_OsuParser"
    by blast
  from hd ev st df nb g ho un show ?thesis
    by blast
qed

subsection \<open>Where the code departs from the claims\<close>

lemma js_sub_int:
  assumes "\<bar>a - b\<bar> < 2 ^ 53"
  shows "js_sub (Num (of_int a)) (Num (of_int b)) = Num (of_int (a - b))"
  using round_double_of_int [OF assms] by (simp add: js_sub_def)

lemma js_mul_int:
  assumes "\<bar>a * b\<bar> < 2 ^ 53"
  shows "js_mul (Num (of_int a)) (Num (of_int b)) = Num (of_int (a * b))"
  using round_double_of_int [OF assms] by simp

lemma product_bound:
  fixes a b :: int
  assumes "\<bar>a\<bar> \<le> 2 ^ 25" and "\<bar>b\<bar> \<le> 2 ^ 25"
  shows "\<bar>a * b\<bar> \<le> 2 ^ 50"
proof -
  have "\<bar>a * b\<bar> = \<bar>a\<bar> * \<bar>b\<bar>"
    by (rule abs_mult)
  also from assms have "\<dots> \<le> 2 ^ 25 * 2 ^ 25"
    by (intro mult_mono) simp_all
  finally show ?thesis
    by simp
qed

lemma threshold_below_one:
  "\<exists>t. round_double (1 / 1000) = Num t \<and> 0 \<le> t \<and> t < 1"
proof -
  have "\<bar>1 / 1000 :: rat\<bar> \<le> 2 ^ 100"
    by simp
  from round_double_finite [OF this] obtain t where
    t: "round_double (1 / 1000) = Num t" "\<bar>t - 1 / 1000\<bar> \<le> (\<bar>1 / 1000\<bar> + 1) / 2" "0 \<le> t"
    by auto
  from t(2) have "t < 1"
    by (simp add: abs_if split: if_splits)
  with t(1,3) show ?thesis
    by blast
qed

text \<open>
  For three points with integer coordinates (up to \<open>2\<^sup>2\<^sup>4\<close> in size, where every
  step is exact) \<open>isLinear\<close> tests whether the sum of the two products is 0, not
  their difference (the cross product).
\<close>

lemma isLinear_sum_of_products:
  fixes x0 y0 x1 y1 x2 y2 :: int
  assumes "\<bar>x0\<bar> \<le> 2 ^ 24" "\<bar>y0\<bar> \<le> 2 ^ 24" "\<bar>x1\<bar> \<le> 2 ^ 24" "\<bar>y1\<bar> \<le> 2 ^ 24"
    "\<bar>x2\<bar> \<le> 2 ^ 24" "\<bar>y2\<bar> \<le> 2 ^ 24"
  shows "isLinear [\<lparr>vec_x = Num (of_int x0), vec_y = Num (of_int y0)\<rparr>,
                   \<lparr>vec_x = Num (of_int x1), vec_y = Num (of_int y1)\<rparr>,
                   \<lparr>vec_x = Num (of_int x2), vec_y = Num (of_int y2)\<rparr>] \<longleftrightarrow>
         (y1 - y0) * (x2 - x0) + (x1 - x0) * (y2 - y0) = 0"
proof -
  define a b c d where "a = y1 - y0" and "b = x2 - x0" and "c = x1 - x0" and "d = y2 - y0"
  from assms have small: "\<bar>a\<bar> \<le> 2 ^ 25" "\<bar>b\<bar> \<le> 2 ^ 25" "\<bar>c\<bar> \<le> 2 ^ 25" "\<bar>d\<bar> \<le> 2 ^ 25"
    by (simp_all add: a_def b_def c_def d_def)
  then have diffs:
    "js_sub (Num (of_int y1)) (Num (of_int y0)) = Num (of_int a)"
    "js_sub (Num (of_int x2)) (Num (of_int x0)) = Num (of_int b)"
    "js_sub (Num (of_int x1)) (Num (of_int x0)) = Num (of_int c)"
    "js_sub (Num (of_int y2)) (Num (of_int y0)) = Num (of_int d)"
    unfolding a_def b_def c_def d_def by (intro js_sub_int; simp)+
  from product_bound [OF small(1,2)] product_bound [OF small(3,4)]
  have pb: "\<bar>a * b\<bar> \<le> 2 ^ 50" "\<bar>c * d\<bar> \<le> 2 ^ 50" .
  then have prods:
    "js_mul (Num (of_int a)) (Num (of_int b)) = Num (of_int (a * b))"
    "js_mul (Num (of_int c)) (Num (of_int d)) = Num (of_int (c * d))"
    by (intro js_mul_int; simp)+
  from pb have "\<bar>0 - a * b\<bar> < 2 ^ 53"
    by simp
  from js_sub_int [OF this]
  have s1: "js_sub (Num 0) (Num (of_int (a * b))) = Num (of_int (0 - a * b))"
    by simp
  from pb have "\<bar>(0 - a * b) - c * d\<bar> < 2 ^ 53"
    by simp
  from js_sub_int [OF this]
  have s2: "js_sub (Num (of_int (0 - a * b))) (Num (of_int (c * d))) =
              Num (of_int (0 - a * b - c * d))" .
  obtain t where t: "round_double (1 / 1000) = Num t" "0 \<le> t" "t < 1"
    using threshold_below_one by blast
  have "isLinear [\<lparr>vec_x = Num (of_int x0), vec_y = Num (of_int y0)\<rparr>,
                   \<lparr>vec_x = Num (of_int x1), vec_y = Num (of_int y1)\<rparr>,
                   \<lparr>vec_x = Num (of_int x2), vec_y = Num (of_int y2)\<rparr>] \<longleftrightarrow>
        \<bar>of_int (0 - a * b - c * d) :: rat\<bar> \<le> t"
    unfolding isLinear_def
    by (simp only: nth_Cons_0 nth_Cons_Suc One_nat_def numeral_2_eq_2 IVector2D.simps
          diffs prods s1 s2 t(1) Math_abs.simps)
       (simp add: js_le_def not_less)
  also have "\<dots> \<longleftrightarrow> 0 - a * b - c * d = 0"
  proof
    assume le: "\<bar>of_int (0 - a * b - c * d) :: rat\<bar> \<le> t"
    have "(of_int \<bar>0 - a * b - c * d\<bar> :: rat) = \<bar>of_int (0 - a * b - c * d)\<bar>"
      by simp
    with le t(3) have "(of_int \<bar>0 - a * b - c * d\<bar> :: rat) < of_int 1"
      by simp
    then have "\<bar>0 - a * b - c * d\<bar> < 1"
      by (simp only: of_int_less_iff)
    then show "0 - a * b - c * d = 0"
      by simp
  next
    assume "0 - a * b - c * d = 0"
    with t(2) show "\<bar>of_int (0 - a * b - c * d) :: rat\<bar> \<le> t"
      by simp
  qed
  also have "\<dots> \<longleftrightarrow> a * b + c * d = 0"
    by auto
  finally show ?thesis
    by (simp only: a_def b_def c_def d_def)
qed

text \<open>
  The products are rounded: at the points (0, 0.03), (0, 0.04), (0.1, 0.03) the product
  is just above the double nearest to 0.001, and the path stays a perfect curve.
\<close>

lemma isLinear_is_rounded:
  "map_sum id (map PathType \<circ> hitObjects)
     (parseHitObjects new_OsuParser ''0,0,0,2,0,P|0:0.03|0:0.04|0.1:0.03,1,100'') =
     Inr [Some PerfectCurve]"
  by code_simp

text \<open>
  Claim C1 at the points (0,0), (1,1), (2,2) of a path requested as a perfect curve: the
  cross product is 0, \<open>isLinear\<close> computes 4, and the emitted object keeps the path
  type PerfectCurve.
\<close>

theorem collinear_perfect_curve_stays_PerfectCurve:
  "map_sum id hitObjects
     (parse_lines new_OsuParser [''[HitObjects]'', ''0,0,0,2,0,P|0:0|1:1|2:2,1,100'']) =
   Inr [\<lparr>Combo = Some False, ComboOffset = Some (Num 0),
         Points = Some [\<lparr>vec_x = Num 0, vec_y = Num 0\<rparr>, \<lparr>vec_x = Num 1, vec_y = Num 1\<rparr>,
                        \<lparr>vec_x = Num 2, vec_y = Num 2\<rparr>],
         Length = Some (Num 100), PathType = Some PerfectCurve,
         RepeatCount = Some (Num 0),
         NodeSamples =
           Some [[\<lparr>Filename_s = None, Bank = None, Name = Some ''hitnormal'',
                   Volume_s = None, CustomSampleBank_s = None\<rparr>],
                 [\<lparr>Filename_s = None, Bank = None, Name = Some ''hitnormal'',
                   Volume_s = None, CustomSampleBank_s = None\<rparr>]],
         Samples =
           Some [\<lparr>Filename_s = None, Bank = None, Name = Some ''hitnormal'',
                  Volume_s = None, CustomSampleBank_s = None\<rparr>],
         StartTime = Some (Num 0),
         Pos_h = Some \<lparr>vec_x = Num 0, vec_y = Num 0\<rparr>\<rparr>]"
  by code_simp

text \<open>
  A token whose add bank is empty reads the add bank as 0, \<open>none\<close>, hence absent; the
  comparison with the empty string never holds, so \<open>Add\<close> stays absent.
\<close>

lemma empty_addbank_never_falls_back:
  assumes "elem_at (split_trim CHR '':'' line) 1 = Some []"
    and "readCustomSampleBanks line bankInfo = Inr bankInfo'"
  shows "Add bankInfo' = None"
proof -
  have "Number_opt (Some []) = Num 0"
    by (simp add: Number_opt_def Number_def trim_def)
  moreover have "call_toLowerCase (LegacySampleBank_number (Num 0)) = Inr ''none''"
    by code_simp
  ultimately show ?thesis
    using assms
    by (auto simp: readCustomSampleBanks_def Let_def split: sum.splits if_splits)
qed

text \<open>
  Claim C6 at the token \<open>2:\<close>: the bank is \<open>soft\<close> and \<open>Add\<close> is absent, not
  \<open>soft\<close>.
\<close>

theorem empty_addbank_gives_absent_Add:
  "readCustomSampleBanks ''2:'' empty_bankInfo =
     Inr \<lparr>Filename = None, Normal = Some ''soft'', Add = None, Volume = None,
          CustomSampleBank = None\<rparr>"
  by code_simp

text \<open>
  Claim C9 at the bank index 5 of a circle's bank token and at the bank index 7 of a
  timing point's field 3: both runs end with a TypeError and emit nothing.
\<close>

theorem unknown_bank_index_throws:
  "map_sum id hitObjects
     (parse_lines new_OsuParser [''[HitObjects]'', ''256,192,1000,1,0,5:0:0:0:'']) =
     Inl TypeError \<and>
   map_sum id timingPoints
     (parse_lines new_OsuParser [''[TimingPoints]'', ''1000,500,4,7'']) = Inl TypeError"
  by code_simp

end
